theory Spec2Isabelle
  imports Main
begin

section \<open>Python values used by the scraper\<close>

text \<open>
  Exceptions are values. The scraper distinguishes two classes only: Playwright's
  \<open>TimeoutError\<close> (caught by its own handler in \<open>_js_scrape\<close>) and every other
  \<open>Exception\<close>. The payload is \<open>str(e)\<close>.
\<close>

datatype exn = TimeoutError string | Error string

fun exn_str :: "exn \<Rightarrow> string" where
  "exn_str (TimeoutError m) = m"
| "exn_str (Error m) = m"

text \<open>
  Strings are lists of characters, one \<open>char\<close> per code point (code points below 256).
  \<open>is_space\<close> is \<open>str.isspace\<close> on that range; it is also what \<open>\s\<close> matches.
\<close>

definition is_space :: "char \<Rightarrow> bool" where
  "is_space c = (c \<in> set [CHR '' '', CHR 0x09, CHR 0x0A, CHR 0x0B, CHR 0x0C, CHR 0x0D,
     CHR 0x1C, CHR 0x1D, CHR 0x1E, CHR 0x1F, CHR 0x85, CHR 0xA0])"

definition strip :: "string \<Rightarrow> string" where
  "strip s = rev (dropWhile is_space (rev (dropWhile is_space s)))"

text \<open>\<open>re.sub(r'\s+', ' ', s)\<close>: every maximal run of white space becomes one blank.\<close>

fun collapse_run :: "bool \<Rightarrow> string \<Rightarrow> string" where
  "collapse_run in_run [] = []"
| "collapse_run in_run (c # cs) =
     (if is_space c then (if in_run then collapse_run True cs else CHR '' '' # collapse_run True cs)
      else c # collapse_run False cs)"

definition collapse_ws :: "string \<Rightarrow> string" where
  "collapse_ws s = collapse_run False s"

text \<open>\<open>s.split()\<close>: the maximal runs of characters that are not white space.\<close>

fun split_acc :: "string \<Rightarrow> string \<Rightarrow> string list" where
  "split_acc cur [] = (if cur = [] then [] else [cur])"
| "split_acc cur (c # cs) =
     (if is_space c then (if cur = [] then split_acc [] cs else cur # split_acc [] cs)
      else split_acc (cur @ [c]) cs)"

definition py_split :: "string \<Rightarrow> string list" where
  "py_split s = split_acc [] s"

fun join :: "string \<Rightarrow> string list \<Rightarrow> string" where
  "join sep [] = []"
| "join sep [w] = w"
| "join sep (w # v # ws) = w @ sep @ join sep (v # ws)"

text \<open>\<open>p in s\<close> for strings: \<open>p\<close> occurs in \<open>s\<close> as a contiguous substring.\<close>

fun contains :: "string \<Rightarrow> string \<Rightarrow> bool" where
  "contains p [] = (p = [])"
| "contains p (c # cs) = (take (length p) (c # cs) = p \<or> contains p cs)"

text \<open>
  \<open>str.lower\<close> and \<open>str.capitalize\<close>, on the letters A-Z and a-z; other characters are
  left as they are.
\<close>

definition lower_char :: "char \<Rightarrow> char" where
  "lower_char c = (let n = (of_char c :: nat) in if 65 \<le> n \<and> n \<le> 90 then char_of (n + 32) else c)"

definition upper_char :: "char \<Rightarrow> char" where
  "upper_char c = (let n = (of_char c :: nat) in if 97 \<le> n \<and> n \<le> 122 then char_of (n - 32) else c)"

definition lower :: "string \<Rightarrow> string" where
  "lower s = map lower_char s"

fun capitalize :: "string \<Rightarrow> string" where
  "capitalize [] = []"
| "capitalize (c # cs) = upper_char c # lower cs"

text \<open>\<open>str(n)\<close> for a natural number: its decimal digits.\<close>

definition digit_char :: "nat \<Rightarrow> char" where
  "digit_char d = char_of (48 + d)"

fun dec :: "nat \<Rightarrow> string" where
  "dec n = (if n < 10 then [digit_char n] else dec (n div 10) @ [digit_char (n mod 10)])"

declare dec.simps [simp del]


section \<open>The parsed markup tree\<close>

text \<open>
  The HTML parser is a library the scraper calls; the scraper sees a tree of nodes. An
  element has a tag name, attributes in source order (an attribute written without a
  value has the value \<open>None\<close>) and children; a text node has its text.
\<close>

type_synonym attrs = "(string \<times> string option) list"

datatype node = Element string attrs "node list" | TextNode string

fun tag :: "node \<Rightarrow> string" where
  "tag (Element t a cs) = t"
| "tag (TextNode s) = ''-text''"

fun attributes :: "node \<Rightarrow> attrs" where
  "attributes (Element t a cs) = a"
| "attributes (TextNode s) = []"

text \<open>\<open>node.text()\<close>: the text of all text nodes below the node, in document order.\<close>

fun node_text :: "node \<Rightarrow> string" where
  "node_text (TextNode s) = s"
| "node_text (Element t a cs) = concat (map node_text cs)"

text \<open>
  The selectors the scraper passes to the parser: a list of tag names (\<open>"h1, h2, h3"\<close>),
  an attribute substring test (\<open>[class*="cookie"]\<close>), and a tag with an attribute
  value (\<open>meta[property="og:title"]\<close>). The parser's selector engine compares
  attribute values without regard to the case of the letters A-Z.
\<close>

datatype selector = Tag "string list" | AttrSub string string | TagAttrEq string string string

fun matches :: "selector \<Rightarrow> string \<Rightarrow> attrs \<Rightarrow> bool" where
  "matches (Tag ts) t a = (t \<in> set ts)"
| "matches (AttrSub k v) t a =
     (case map_of a k of Some (Some x) \<Rightarrow> contains (lower v) (lower x) | _ \<Rightarrow> False)"
| "matches (TagAttrEq tg k v) t a =
     (t = tg \<and> (case map_of a k of Some (Some x) \<Rightarrow> lower x = lower v | _ \<Rightarrow> False))"

fun hit :: "selector \<Rightarrow> node \<Rightarrow> bool" where
  "hit sel (Element t a cs) = matches sel t a"
| "hit sel (TextNode s) = False"

text \<open>The elements of the subtree that match, in document order.\<close>

fun select_all :: "selector \<Rightarrow> node \<Rightarrow> node list" where
  "select_all sel (TextNode s) = []"
| "select_all sel (Element t a cs) =
     (if matches sel t a then [Element t a cs] else []) @ concat (map (select_all sel) cs)"

text \<open>
  \<open>node.css(sel)\<close>: for a list of tag names the library gives the matches of the first
  name, in document order, then those of the second name, and so on.
\<close>

fun css :: "selector \<Rightarrow> node \<Rightarrow> node list" where
  "css (Tag ts) n = concat (map (\<lambda>t. select_all (Tag [t]) n) ts)"
| "css (AttrSub k v) n = select_all (AttrSub k v) n"
| "css (TagAttrEq tg k v) n = select_all (TagAttrEq tg k v) n"

definition css_first :: "selector \<Rightarrow> node \<Rightarrow> node option" where
  "css_first sel n = (case css sel n of [] \<Rightarrow> None | x # _ \<Rightarrow> Some x)"

text \<open>
  \<open>[h.parent for h in node.css("h1, h2, h3")]\<close>: the parent of every heading, once per
  heading, in the order \<open>css\<close> gives the headings: those of the \<open>h1\<close> elements first,
  then \<open>h2\<close>, then \<open>h3\<close>. The root has no parent.
\<close>

definition heading_tags :: "string list" where
  "heading_tags = [''h1'', ''h2'', ''h3'']"

fun parents_of :: "string \<Rightarrow> node option \<Rightarrow> node \<Rightarrow> node option list" where
  "parents_of h p (TextNode s) = []"
| "parents_of h p (Element t a cs) =
     (if t = h then [p] else []) @ concat (map (parents_of h (Some (Element t a cs))) cs)"

definition heading_parents :: "node option \<Rightarrow> node \<Rightarrow> node option list" where
  "heading_parents p n = concat (map (\<lambda>h. parents_of h p n) heading_tags)"

text \<open>
  \<open>elem.decompose()\<close> for every element matching a selector: the matching elements go,
  with their subtrees. A document whose root is decomposed is empty (\<open>None\<close>).
\<close>

fun decompose_all :: "selector \<Rightarrow> node \<Rightarrow> node" where
  "decompose_all sel (TextNode s) = TextNode s"
| "decompose_all sel (Element t a cs) =
     Element t a (map (decompose_all sel) (filter (\<lambda>c. \<not> hit sel c) cs))"

type_synonym document = "node option"

definition decompose_doc :: "selector \<Rightarrow> document \<Rightarrow> document" where
  "decompose_doc sel d =
     (case d of None \<Rightarrow> None
      | Some r \<Rightarrow> if hit sel r then None else Some (decompose_all sel r))"

definition doc_css :: "selector \<Rightarrow> document \<Rightarrow> node list" where
  "doc_css sel d = (case d of None \<Rightarrow> [] | Some r \<Rightarrow> css sel r)"

text \<open>The body element of a tree, a child of the root; \<open>None\<close> when there is none.\<close>

definition doc_body :: "document \<Rightarrow> node option" where
  "doc_body d =
     (case d of Some (Element t a cs) \<Rightarrow> find (\<lambda>c. tag c = ''body'') cs
      | _ \<Rightarrow> None)"

text \<open>
  The library functions the scraper is given: the parser, the serialisation of a node
  (\<open>str(elem.html)\<close>), \<open>urllib.parse.urljoin\<close>, which raises \<open>ValueError\<close> on a
  malformed reference, and the node that \<open>parser.body\<close> still hands out for a body
  element that has been decomposed (\<open>detached\<close>, applied to the body as parsed).
\<close>

record lib =
  HTMLParser :: "string \<Rightarrow> node"
  html_of :: "node \<Rightarrow> string"
  urljoin :: "string \<Rightarrow> string \<Rightarrow> exn + string"
  detached :: "node \<Rightarrow> node"

text \<open>
  \<open>parser.body\<close> after noise removal: the parser remembers the body element it found
  when it parsed. While that element is in the tree it is given as noise removal left
  it; once it has been decomposed, itself or with the root, the library still gives a
  node for it. A tree parsed without a body element has none.
\<close>

definition parser_body :: "lib \<Rightarrow> node \<Rightarrow> document \<Rightarrow> node option" where
  "parser_body L root d =
     (case doc_body d of
        Some body \<Rightarrow> Some body
      | None \<Rightarrow> (case doc_body (Some root) of
                   Some body \<Rightarrow> Some (detached L body)
                 | None \<Rightarrow> None))"


section \<open>Sections\<close>

record link =
  link_text :: string
  href :: string

record image =
  src :: string
  alt :: "string option"

record content_block =
  headings :: "string list"
  text_c :: string
  links :: "link list"
  images :: "image list"
  lists_c :: "string list list"
  tables :: "string list list list"

record section_rec =
  sec_id :: string
  sec_type :: string
  label :: string
  sourceUrl :: string
  content :: content_block
  rawHtml :: string
  truncated :: bool

text \<open>
  \<open>attrs.get(k)\<close> used as a condition: the value when the attribute is there with a
  non-empty value, otherwise nothing.
\<close>

definition attr_truthy :: "attrs \<Rightarrow> string \<Rightarrow> string option" where
  "attr_truthy a k =
     (case map_of a k of Some (Some v) \<Rightarrow> if v = [] then None else Some v | _ \<Rightarrow> None)"

text \<open>
  \<open>attrs.get(k, "").lower()\<close>: an attribute written without a value is \<open>None\<close>, and
  \<open>None.lower()\<close> raises \<open>AttributeError\<close>.
\<close>

definition attr_lower :: "attrs \<Rightarrow> string \<Rightarrow> exn + string" where
  "attr_lower a k =
     (case map_of a k of None \<Rightarrow> Inr []
      | Some None \<Rightarrow> Inl (Error ''AttributeError'')
      | Some (Some v) \<Rightarrow> Inr (lower v))"

definition classify :: "string \<Rightarrow> string \<Rightarrow> string \<Rightarrow> string" where
  "classify tag_lower class_attr id_attr =
     (if tag_lower = ''header'' \<or> contains ''header'' class_attr \<or> contains ''header'' id_attr
        then ''nav''
      else if tag_lower = ''nav'' \<or> contains ''nav'' class_attr \<or> contains ''nav'' id_attr
        then ''nav''
      else if tag_lower = ''footer'' \<or> contains ''footer'' class_attr \<or> contains ''footer'' id_attr
        then ''footer''
      else if tag_lower = ''article'' then ''section''
      else if contains ''hero'' class_attr \<or> contains ''hero'' id_attr
              \<or> (tag_lower = ''section'' \<and> contains ''hero'' (class_attr @ id_attr))
        then ''hero''
      else if contains ''faq'' class_attr \<or> contains ''faq'' id_attr then ''faq''
      else if contains ''pricing'' class_attr \<or> contains ''pricing'' id_attr then ''pricing''
      else if contains ''grid'' class_attr \<or> contains ''grid'' id_attr then ''grid''
      else if contains ''list'' class_attr \<or> contains ''list'' id_attr then ''list''
      else ''section'')"

definition determine_type :: "string \<Rightarrow> node \<Rightarrow> exn + string" where
  "determine_type tag_name elem =
     (case attr_lower (attributes elem) ''class'' of Inl e \<Rightarrow> Inl e
      | Inr class_attr \<Rightarrow>
        (case attr_lower (attributes elem) ''id'' of Inl e \<Rightarrow> Inl e
         | Inr id_attr \<Rightarrow> Inr (classify (lower tag_name) class_attr id_attr)))"

definition stripped_texts :: "node list \<Rightarrow> string list" where
  "stripped_texts ns = filter (\<lambda>s. s \<noteq> []) (map (\<lambda>n. strip (node_text n)) ns)"

definition derive_label :: "node \<Rightarrow> string" where
  "derive_label elem =
     (case stripped_texts (css (Tag heading_tags) elem) of
        l # _ \<Rightarrow> take 50 l
      | [] \<Rightarrow>
         (let words = take 7 (py_split (strip (node_text elem))) in
          if words \<noteq> [] then
            (let l = join '' '' words in if length l > 50 then take 50 l else l)
          else capitalize (lower (tag elem))))"

fun extract_links :: "lib \<Rightarrow> string \<Rightarrow> node list \<Rightarrow> exn + link list" where
  "extract_links L base_url [] = Inr []"
| "extract_links L base_url (n # ns) =
     (case attr_truthy (attributes n) ''href'' of
        None \<Rightarrow> extract_links L base_url ns
      | Some h \<Rightarrow>
         (case urljoin L base_url h of Inl e \<Rightarrow> Inl e
          | Inr absolute_url \<Rightarrow>
             (case extract_links L base_url ns of Inl e \<Rightarrow> Inl e
              | Inr ls \<Rightarrow> Inr (\<lparr>link_text = strip (node_text n), href = absolute_url\<rparr> # ls))))"

definition attr_default :: "attrs \<Rightarrow> string \<Rightarrow> string option" where
  "attr_default a k = (case map_of a k of None \<Rightarrow> Some [] | Some v \<Rightarrow> v)"

fun extract_images :: "lib \<Rightarrow> string \<Rightarrow> node list \<Rightarrow> exn + image list" where
  "extract_images L base_url [] = Inr []"
| "extract_images L base_url (n # ns) =
     (case attr_truthy (attributes n) ''src'' of
        None \<Rightarrow> extract_images L base_url ns
      | Some s \<Rightarrow>
         (case urljoin L base_url s of Inl e \<Rightarrow> Inl e
          | Inr absolute_url \<Rightarrow>
             (case extract_images L base_url ns of Inl e \<Rightarrow> Inl e
              | Inr is \<Rightarrow> Inr (\<lparr>src = absolute_url, alt = attr_default (attributes n) ''alt''\<rparr> # is))))"

definition extract_lists :: "node \<Rightarrow> string list list" where
  "extract_lists elem =
     filter (\<lambda>items. items \<noteq> [])
       (map (\<lambda>ul_ol. stripped_texts (css (Tag [''li'']) ul_ol)) (css (Tag [''ul'', ''ol'']) elem))"

definition extract_tables :: "node \<Rightarrow> string list list list" where
  "extract_tables elem =
     filter (\<lambda>table_data. table_data \<noteq> [])
       (map (\<lambda>table.
              filter (\<lambda>row_data. row_data \<noteq> [])
                (map (\<lambda>row. map (\<lambda>cell. strip (node_text cell)) (css (Tag [''td'', ''th'']) row))
                   (css (Tag [''tr'']) table)))
          (css (Tag [''table'']) elem))"

definition extract_section :: "lib \<Rightarrow> node option \<Rightarrow> string \<Rightarrow> nat \<Rightarrow> exn + section_rec option" where
  "extract_section L elem_opt base_url idx =
     (case elem_opt of None \<Rightarrow> Inr None
      | Some elem \<Rightarrow>
        (case determine_type (lower (tag elem)) elem of Inl e \<Rightarrow> Inl e
         | Inr section_type \<Rightarrow>
           (case extract_links L base_url (css (Tag [''a'']) elem) of Inl e \<Rightarrow> Inl e
            | Inr all_links \<Rightarrow>
              (case extract_images L base_url (css (Tag [''img'']) elem) of Inl e \<Rightarrow> Inl e
               | Inr all_images \<Rightarrow>
                  (let txt = collapse_ws (strip (node_text elem));
                       raw_html = html_of L elem
                   in Inr (Some
                     \<lparr>sec_id = section_type @ ''-'' @ dec idx,
                      sec_type = section_type,
                      label = derive_label elem,
                      sourceUrl = base_url,
                      content =
                        \<lparr>headings = take 10 (stripped_texts
                             (css (Tag [''h1'', ''h2'', ''h3'', ''h4'', ''h5'', ''h6'']) elem)),
                         text_c = (if length txt > 5000 then take 5000 txt else txt),
                         links = take 50 all_links,
                         images = take 20 all_images,
                         lists_c = take 10 (extract_lists elem),
                         tables = extract_tables elem\<rparr>,
                      rawHtml = (if length raw_html > 2000 then take 2000 raw_html @ ''...''
                                 else raw_html),
                      truncated = (length raw_html > 2000)\<rparr>))))))"

definition placeholder :: "string \<Rightarrow> section_rec" where
  "placeholder base_url =
     \<lparr>sec_id = ''empty-0'', sec_type = ''unknown'', label = ''Empty Content'',
      sourceUrl = base_url,
      content = \<lparr>headings = [], text_c = [], links = [], images = [], lists_c = [], tables = []\<rparr>,
      rawHtml = [], truncated = False\<rparr>"

definition noise_selectors :: "selector list" where
  "noise_selectors =
     [AttrSub ''class'' ''cookie'', AttrSub ''class'' ''banner'', AttrSub ''class'' ''modal'',
      AttrSub ''class'' ''popup'', AttrSub ''class'' ''overlay'',
      AttrSub ''id'' ''cookie'', AttrSub ''id'' ''banner'', AttrSub ''id'' ''modal'',
      AttrSub ''id'' ''popup'']"

definition remove_noise :: "document \<Rightarrow> document" where
  "remove_noise d = foldl (\<lambda>d sel. decompose_doc sel d) d noise_selectors"

definition landmark_tags :: "string list" where
  "landmark_tags = [''header'', ''nav'', ''main'', ''section'', ''footer'', ''article'']"

text \<open>
  The candidate elements of \<open>_parse_sections\<close>: the landmarks; without landmarks, the
  parents of the headings; without headings, the body when there is one.
\<close>

definition section_elements :: "node option \<Rightarrow> document \<Rightarrow> node option list" where
  "section_elements body parser =
     (let landmarks = map Some (doc_css (Tag landmark_tags) parser);
          with_headings =
            (if landmarks \<noteq> [] then landmarks
             else (case parser of None \<Rightarrow> [] | Some r \<Rightarrow> heading_parents None r))
      in if with_headings \<noteq> [] then with_headings
         else (case body of None \<Rightarrow> [] | Some b \<Rightarrow> [Some b]))"

text \<open>The loop over \<open>enumerate(section_elements[:20])\<close>; an exception ends it.\<close>

fun extract_all :: "lib \<Rightarrow> string \<Rightarrow> nat \<Rightarrow> node option list \<Rightarrow> exn + section_rec list" where
  "extract_all L base_url idx [] = Inr []"
| "extract_all L base_url idx (elem # elems) =
     (case extract_section L elem base_url idx of Inl e \<Rightarrow> Inl e
      | Inr r \<Rightarrow>
         (case extract_all L base_url (Suc idx) elems of Inl e \<Rightarrow> Inl e
          | Inr ss \<Rightarrow> Inr ((case r of None \<Rightarrow> [] | Some s \<Rightarrow> [s]) @ ss)))"

definition parse_sections :: "lib \<Rightarrow> string \<Rightarrow> string \<Rightarrow> exn + section_rec list" where
  "parse_sections L html base_url =
     (if html = [] \<or> strip html = [] then Inr [placeholder base_url]
      else
        (let root = HTMLParser L html;
             parser = remove_noise (Some root);
             body = parser_body L root parser in
         case extract_all L base_url 0 (take 20 (section_elements body parser)) of Inl e \<Rightarrow> Inl e
         | Inr sections \<Rightarrow>
            if sections \<noteq> [] then Inr sections
            else (case body of None \<Rightarrow> Inr []
                  | Some b \<Rightarrow>
                     (case extract_section L (Some b) base_url 0 of Inl e \<Rightarrow> Inl e
                      | Inr None \<Rightarrow> Inr []
                      | Inr (Some s) \<Rightarrow> Inr [s]))))"


section \<open>Metadata\<close>

record metadata =
  title :: string
  description :: string
  language :: string
  canonical :: "string option"

definition default_meta :: metadata where
  "default_meta = \<lparr>title = [], description = [], language = ''en'', canonical = None\<rparr>"

definition content_of :: "selector \<Rightarrow> string \<Rightarrow> node \<Rightarrow> string option" where
  "content_of sel k parser =
     (case css_first sel parser of None \<Rightarrow> None | Some n \<Rightarrow> attr_truthy (attributes n) k)"

definition extract_meta_static :: "lib \<Rightarrow> string \<Rightarrow> metadata" where
  "extract_meta_static L html =
     (let parser = HTMLParser L html;
          title_tag = (case css_first (Tag [''title'']) parser of
                         None \<Rightarrow> [] | Some t \<Rightarrow> strip (node_text t));
          og_title = content_of (TagAttrEq ''meta'' ''property'' ''og:title'') ''content'' parser;
          desc_tag = content_of (TagAttrEq ''meta'' ''name'' ''description'') ''content'' parser;
          og_desc = content_of (TagAttrEq ''meta'' ''property'' ''og:description'') ''content'' parser;
          lang = content_of (Tag [''html'']) ''lang'' parser
      in \<lparr>title = (case og_title of Some v \<Rightarrow> v | None \<Rightarrow> title_tag),
          description = (case og_desc of Some v \<Rightarrow> v
                         | None \<Rightarrow> (case desc_tag of Some v \<Rightarrow> v | None \<Rightarrow> [])),
          language = (case lang of Some v \<Rightarrow> take 2 v | None \<Rightarrow> ''en''),
          canonical = content_of (TagAttrEq ''link'' ''rel'' ''canonical'') ''href'' parser\<rparr>)"

definition has_main_content :: "lib \<Rightarrow> string \<Rightarrow> bool" where
  "has_main_content L html =
     (let parser = HTMLParser L html in
      case css_first (Tag [''main'']) parser of
        Some main \<Rightarrow> length (strip (node_text main)) > 100
      | None \<Rightarrow>
         (case css_first (Tag [''article'']) parser of
            Some article \<Rightarrow> length (strip (node_text article)) > 100
          | None \<Rightarrow> False))"


section \<open>The network and the browser\<close>

text \<open>
  The HTTP client and the browser are outside the program. Every call the scraper makes
  to them is recorded in a trace, together with the entry into each of its three fetch
  methods; what a call answers may depend on everything that happened before it, so
  the answers are functions of the trace up to and including the call.
\<close>

datatype fetch_method = StaticScrape | JsScrape | JsScrapeForInteractions

datatype call =
    Invoke fetch_method string
  | HttpGet string
  | GetBrowser
  | NewPage
  | Goto string
  | Content
  | Title
  | GetAttribute string string
  | QuerySelectorAll string
  | ClickHandle nat
  | QuerySelector string
  | ClickButton string
  | Evaluate string
  | HrefOfFirst
  | ClosePage

record world =
  http :: "call list \<Rightarrow> exn + string"
  act :: "call list \<Rightarrow> exn option"
  read_str :: "call list \<Rightarrow> exn + string"
  read_attr :: "call list \<Rightarrow> exn + string option"
  count_handles :: "call list \<Rightarrow> exn + nat"
  found :: "call list \<Rightarrow> exn + bool"

record scrape_error =
  message :: string
  phase :: string

record interaction_log =
  clicks :: "string list"
  scrolls :: nat
  pages :: "string list"

record scrape_result =
  url_r :: string
  scrapedAt :: string
  meta :: metadata
  sections :: "section_rec list"
  interactions :: interaction_log
  errors :: "scrape_error list"

type_synonym rendered = "string \<times> metadata \<times> scrape_error list \<times> interaction_log"

text \<open>
  \<open>_extract_meta_js\<close>: four lookups on the live page, each in its own
  \<open>try ... except: pass\<close>.
\<close>

definition extract_meta_js :: "world \<Rightarrow> call list \<Rightarrow> metadata \<times> call list" where
  "extract_meta_js W tr0 =
     (let tr1 = tr0 @ [Title];
          tr2 = tr1 @ [GetAttribute ''meta[name=\"description\"]'' ''content''];
          tr3 = tr2 @ [GetAttribute ''html'' ''lang''];
          tr4 = tr3 @ [GetAttribute ''link[rel=\"canonical\"]'' ''href'']
      in (\<lparr>title = (case read_str W tr1 of Inr t \<Rightarrow> t | Inl e \<Rightarrow> []),
           description = (case read_attr W tr2 of Inr (Some d) \<Rightarrow> d | _ \<Rightarrow> []),
           language = (case read_attr W tr3 of
                         Inr (Some l) \<Rightarrow> if l = [] then ''en'' else take 2 l
                       | _ \<Rightarrow> ''en''),
           canonical = (case read_attr W tr4 of
                          Inr (Some c) \<Rightarrow> if c = [] then None else Some c
                        | _ \<Rightarrow> None)\<rparr>, tr4))"

definition static_scrape :: "lib \<Rightarrow> world \<Rightarrow> string \<Rightarrow> call list \<Rightarrow> (exn + string \<times> metadata) \<times> call list" where
  "static_scrape L W url tr0 =
     (let tr = tr0 @ [Invoke StaticScrape url, HttpGet url] in
      case http W tr of Inl e \<Rightarrow> (Inl e, tr)
      | Inr html \<Rightarrow> (Inr (html, extract_meta_static L html), tr))"

definition render_error :: "string \<Rightarrow> exn \<Rightarrow> scrape_error" where
  "render_error what e = \<lparr>message = what @ exn_str e, phase = ''render''\<rparr>"

definition initial_log :: "string \<Rightarrow> interaction_log" where
  "initial_log url = \<lparr>clicks = [], scrolls = 0, pages = [url]\<rparr>"

text \<open>
  The end of both render methods after an exception other than a timeout: the page's
  markup and metadata if they can still be read, else empty markup and the default
  metadata; then the page is closed, and an exception of \<open>page.close()\<close> leaves the
  method.
\<close>

definition harvest :: "lib \<Rightarrow> world \<Rightarrow> scrape_error list \<Rightarrow> interaction_log \<Rightarrow> call list
    \<Rightarrow> (exn + rendered) \<times> call list" where
  "harvest L W errs lg tr0 =
     (let tr1 = tr0 @ [Content];
          (html, m, tr2) =
            (case read_str W tr1 of
               Inr h \<Rightarrow> (let (m, t) = extract_meta_js W tr1 in (h, m, t))
             | Inl e \<Rightarrow> ([], extract_meta_static L [], tr1));
          tr3 = tr2 @ [ClosePage]
      in case act W tr3 of Some e \<Rightarrow> (Inl e, tr3)
         | None \<Rightarrow> (Inr (html, m, errs, lg), tr3))"

text \<open>The handler of \<open>_js_scrape\<close> for a timeout: nothing is guarded.\<close>

definition harvest_timeout :: "world \<Rightarrow> scrape_error list \<Rightarrow> interaction_log \<Rightarrow> call list
    \<Rightarrow> (exn + rendered) \<times> call list" where
  "harvest_timeout W errs lg tr0 =
     (let tr1 = tr0 @ [Content] in
      case read_str W tr1 of Inl e \<Rightarrow> (Inl e, tr1)
      | Inr html \<Rightarrow>
         (let (m, tr2) = extract_meta_js W tr1; tr3 = tr2 @ [ClosePage] in
          case act W tr3 of Some e \<Rightarrow> (Inl e, tr3)
          | None \<Rightarrow> (Inr (html, m, errs, lg), tr3)))"

definition js_handler :: "lib \<Rightarrow> world \<Rightarrow> string \<Rightarrow> exn \<Rightarrow> call list \<Rightarrow> (exn + rendered) \<times> call list" where
  "js_handler L W url e tr =
     (case e of
        TimeoutError m \<Rightarrow>
          harvest_timeout W [render_error ''Timeout waiting for page load: '' e] (initial_log url) tr
      | Error m \<Rightarrow>
          harvest L W [render_error ''JS rendering error: '' e] (initial_log url) tr)"

definition js_scrape :: "lib \<Rightarrow> world \<Rightarrow> string \<Rightarrow> call list \<Rightarrow> (exn + rendered) \<times> call list" where
  "js_scrape L W url tr0 =
     (let tr1 = tr0 @ [Invoke JsScrape url, GetBrowser] in
      case act W tr1 of Some e \<Rightarrow> (Inl e, tr1)
      | None \<Rightarrow>
        (let tr2 = tr1 @ [NewPage] in
         case act W tr2 of Some e \<Rightarrow> (Inl e, tr2)
         | None \<Rightarrow>
           (let tr3 = tr2 @ [Goto url] in
            case act W tr3 of Some e \<Rightarrow> js_handler L W url e tr3
            | None \<Rightarrow>
              (let tr4 = tr3 @ [Content] in
               case read_str W tr4 of Inl e \<Rightarrow> js_handler L W url e tr4
               | Inr html \<Rightarrow>
                 (let (m, tr5) = extract_meta_js W tr4; tr6 = tr5 @ [ClosePage] in
                  case act W tr6 of Some e \<Rightarrow> js_handler L W url e tr6
                  | None \<Rightarrow> (Inr (html, m, [], initial_log url), tr6))))))"


section \<open>The interaction simulator\<close>

definition tab_selector :: string where
  "tab_selector = ''[role=\"tab\"], .tab, [data-tab]''"

definition load_more_selectors :: "string list" where
  "load_more_selectors =
     [''button:has-text(\"Load more\")'', ''button:has-text(\"Show more\")'',
      ''button:has-text(\"Load More\")'', ''a:has-text(\"Load more\")'',
      ''[class*=\"load-more\"]'', ''[class*=\"show-more\"]'']"

definition scroll_script :: string where
  "scroll_script = ''window.scrollTo(0, document.body.scrollHeight)''"

definition next_selector :: string where
  "next_selector = ''a:has-text(\"Next\"), a:has-text(\"next\"), [rel=\"next\"]''"

type_synonym istate = "interaction_log \<times> call list"

text \<open>\<open>for tab in tabs[:3]\<close>: a click that fails is passed over.\<close>

fun click_tabs :: "world \<Rightarrow> nat list \<Rightarrow> istate \<Rightarrow> istate" where
  "click_tabs W [] s = s"
| "click_tabs W (i # is) (lg, tr) =
     (let tr1 = tr @ [ClickHandle i] in
      case act W tr1 of
        None \<Rightarrow> click_tabs W is (lg\<lparr>clicks := clicks lg @ [''[role=\"tab\"]'']\<rparr>, tr1)
      | Some e \<Rightarrow> click_tabs W is (lg, tr1))"

text \<open>
  \<open>for selector in load_more_selectors\<close>: the loop ends at the first button that is
  found and clicked; a lookup or a click that fails goes on to the next selector.
\<close>

fun click_load_more :: "world \<Rightarrow> string list \<Rightarrow> istate \<Rightarrow> istate" where
  "click_load_more W [] s = s"
| "click_load_more W (sel # sels) (lg, tr) =
     (let tr1 = tr @ [QuerySelector sel] in
      case found W tr1 of
        Inr True \<Rightarrow>
          (let tr2 = tr1 @ [ClickButton sel] in
           case act W tr2 of
             None \<Rightarrow> (lg\<lparr>clicks := clicks lg @ [sel]\<rparr>, tr2)
           | Some e \<Rightarrow> click_load_more W sels (lg, tr2))
      | _ \<Rightarrow> click_load_more W sels (lg, tr1))"

text \<open>
  The guarded pagination step of one round: the first next-link's \<open>href\<close>, resolved
  against the origin URL, is recorded and then navigated to unless it was visited.
  Every exception in the step is passed over, also that of the navigation.
\<close>

definition paginate :: "lib \<Rightarrow> world \<Rightarrow> string \<Rightarrow> istate \<Rightarrow> istate" where
  "paginate L W url s =
     (let (lg, tr) = s; tr1 = tr @ [HrefOfFirst] in
      case read_attr W tr1 of
        Inr (Some next_url) \<Rightarrow>
          if next_url = [] then (lg, tr1)
          else (case urljoin L url next_url of
                  Inl e \<Rightarrow> (lg, tr1)
                | Inr full_url \<Rightarrow>
                    if full_url \<in> set (pages lg) then (lg, tr1)
                    else (lg\<lparr>pages := pages lg @ [full_url]\<rparr>, tr1 @ [Goto full_url]))
      | _ \<Rightarrow> (lg, tr1))"

text \<open>
  \<open>for i in range(3)\<close>: scroll, count, look for next-links; an exception of the scroll
  or of the lookup leaves the loop for the handler of the method.
\<close>

fun rounds :: "lib \<Rightarrow> world \<Rightarrow> string \<Rightarrow> nat list \<Rightarrow> istate \<Rightarrow> exn option \<times> istate" where
  "rounds L W url [] s = (None, s)"
| "rounds L W url (i # is) (lg, tr) =
     (let tr1 = tr @ [Evaluate scroll_script] in
      case act W tr1 of Some e \<Rightarrow> (Some e, (lg, tr1))
      | None \<Rightarrow>
        (let lg1 = lg\<lparr>scrolls := scrolls lg + 1\<rparr>; tr2 = tr1 @ [QuerySelectorAll next_selector] in
         case count_handles W tr2 of Inl e \<Rightarrow> (Some e, (lg1, tr2))
         | Inr n \<Rightarrow>
            rounds L W url is (if n > 0 \<and> i < 2 then paginate L W url (lg1, tr2) else (lg1, tr2))))"

text \<open>
  The \<open>try\<close> block of \<open>_js_scrape_for_interactions\<close>: the exception that left it, if
  any, with the log and the trace at that point; else the markup and metadata read.
\<close>

definition interact :: "lib \<Rightarrow> world \<Rightarrow> string \<Rightarrow> call list \<Rightarrow> (exn + string \<times> metadata) \<times> istate" where
  "interact L W url tr0 =
     (let tr1 = tr0 @ [Goto url] in
      case act W tr1 of Some e \<Rightarrow> (Inl e, (initial_log url, tr1))
      | None \<Rightarrow>
        (let tr2 = tr1 @ [QuerySelectorAll tab_selector] in
         case count_handles W tr2 of Inl e \<Rightarrow> (Inl e, (initial_log url, tr2))
         | Inr n \<Rightarrow>
           (case rounds L W url [0, 1, 2]
                   (click_load_more W load_more_selectors
                      (click_tabs W [0 ..< min n 3] (initial_log url, tr2))) of
              (Some e, s) \<Rightarrow> (Inl e, s)
            | (None, (lg, tr3)) \<Rightarrow>
               (let tr4 = tr3 @ [Content] in
                case read_str W tr4 of Inl e \<Rightarrow> (Inl e, (lg, tr4))
                | Inr html \<Rightarrow>
                   (let (m, tr5) = extract_meta_js W tr4; tr6 = tr5 @ [ClosePage] in
                    case act W tr6 of Some e \<Rightarrow> (Inl e, (lg, tr6))
                    | None \<Rightarrow> (Inr (html, m), (lg, tr6)))))))"

definition js_scrape_for_interactions :: "lib \<Rightarrow> world \<Rightarrow> string \<Rightarrow> call list \<Rightarrow> (exn + rendered) \<times> call list" where
  "js_scrape_for_interactions L W url tr0 =
     (let tr1 = tr0 @ [Invoke JsScrapeForInteractions url, GetBrowser] in
      case act W tr1 of Some e \<Rightarrow> (Inl e, tr1)
      | None \<Rightarrow>
        (let tr2 = tr1 @ [NewPage] in
         case act W tr2 of Some e \<Rightarrow> (Inl e, tr2)
         | None \<Rightarrow>
           (case interact L W url tr2 of
              (Inr (html, m), (lg, tr)) \<Rightarrow> (Inr (html, m, [], lg), tr)
            | (Inl e, (lg, tr)) \<Rightarrow> harvest L W [render_error ''Interaction error: '' e] lg tr)))"


section \<open>The fetch strategy\<close>

definition body_text :: "lib \<Rightarrow> string \<Rightarrow> string" where
  "body_text L html =
     (case doc_body (Some (HTMLParser L html)) of Some body \<Rightarrow> node_text body | None \<Rightarrow> [])"

definition needs_full_render :: "lib \<Rightarrow> string \<Rightarrow> bool" where
  "needs_full_render L html =
     (length (strip (body_text L html)) < 200 \<or> \<not> has_main_content L html)"

text \<open>The \<open>try\<close> block of \<open>scrape\<close>.\<close>

definition static_first :: "lib \<Rightarrow> world \<Rightarrow> string \<Rightarrow> (exn + rendered) \<times> call list" where
  "static_first L W url =
     (case static_scrape L W url [] of
        (Inl e, tr) \<Rightarrow> (Inl e, tr)
      | (Inr (html, m), tr) \<Rightarrow>
          if needs_full_render L html then js_scrape L W url tr
          else js_scrape_for_interactions L W url tr)"

definition assemble :: "lib \<Rightarrow> string \<Rightarrow> string \<Rightarrow> rendered \<Rightarrow> exn + scrape_result" where
  "assemble L url scraped_at r =
     (let (html, m, errs, lg) = r in
      case parse_sections L html url of Inl e \<Rightarrow> Inl e
      | Inr secs \<Rightarrow>
          Inr \<lparr>url_r = url, scrapedAt = scraped_at, meta = m, sections = secs,
               interactions = lg, errors = errs\<rparr>)"

definition scrape :: "lib \<Rightarrow> world \<Rightarrow> string \<Rightarrow> string \<Rightarrow> (exn + scrape_result) \<times> call list" where
  "scrape L W url scraped_at =
     (case static_first L W url of
        (Inr r, tr) \<Rightarrow> (assemble L url scraped_at r, tr)
      | (Inl e, tr) \<Rightarrow>
         (let fetch_error = \<lparr>message = ''Static scrape failed: '' @ exn_str e, phase = ''fetch''\<rparr> in
          case js_scrape L W url tr of
            (Inr (html, m, js_errors, js_interactions), tr2) \<Rightarrow>
              (assemble L url scraped_at (html, m, fetch_error # js_errors, js_interactions), tr2)
          | (Inl e2, tr2) \<Rightarrow>
              (assemble L url scraped_at
                 ([], extract_meta_static L [],
                  [fetch_error, render_error ''JS scrape failed: '' e2], initial_log url), tr2)))"

text \<open>
  A plain serialisation and a plain join, for running the scraper on concrete trees.
  None of the pages below has its body decomposed; \<open>detached\<close> is set to leave the
  body its tag and attributes and no children.
\<close>

fun serialize_attr :: "string \<times> string option \<Rightarrow> string" where
  "serialize_attr (k, None) = '' '' @ k"
| "serialize_attr (k, Some v) = '' '' @ k @ ''=\"'' @ v @ ''\"''"

fun serialize :: "node \<Rightarrow> string" where
  "serialize (TextNode s) = s"
| "serialize (Element t a cs) =
     ''<'' @ t @ concat (map serialize_attr a) @ ''>'' @ concat (map serialize cs) @ ''</'' @ t @ ''>''"

definition fixed_page :: "node \<Rightarrow> lib" where
  "fixed_page root =
     \<lparr>HTMLParser = (\<lambda>html. root), html_of = serialize, urljoin = (\<lambda>base ref. Inr (base @ ref)),
      detached = (\<lambda>body. Element (tag body) (attributes body) [])\<rparr>"





section \<open>Reading a trace\<close>

fun is_invoke :: "call \<Rightarrow> bool" where
  "is_invoke (Invoke m u) = True"
| "is_invoke c = False"

text \<open>The URLs navigated to, in order.\<close>

fun gotos :: "call list \<Rightarrow> string list" where
  "gotos [] = []"
| "gotos (Goto u # cs) = u # gotos cs"
| "gotos (c # cs) = gotos cs"

text \<open>
  Two traces with the same navigations and the same method entries; and a step of the
  interaction simulator that records at most \<open>n\<close> new pages, each of them navigated
  to, and enters no method.
\<close>

definition same_marks :: "call list \<Rightarrow> call list \<Rightarrow> bool" where
  "same_marks tr tr' = (gotos tr' = gotos tr \<and> filter is_invoke tr' = filter is_invoke tr)"

definition grows :: "nat \<Rightarrow> istate \<Rightarrow> istate \<Rightarrow> bool" where
  "grows n s s' =
     (filter is_invoke (snd s') = filter is_invoke (snd s) \<and>
      (\<exists>new. pages (fst s') = pages (fst s) @ new \<and> gotos (snd s') = gotos (snd s) @ new \<and>
             length new \<le> n \<and> (distinct (pages (fst s)) \<longrightarrow> distinct (pages (fst s')))))"


section \<open>Concrete pages\<close>

definition empty_document :: node where
  "empty_document = Element ''html'' [] [Element ''head'' [] [], Element ''body'' [] []]"

text \<open>A frameset document: the HTML tree construction gives it no body element.\<close>

definition frameset_page :: node where
  "frameset_page = Element ''html'' [] [Element ''head'' [] [], Element ''frameset'' [] []]"

definition long_main :: node where
  "long_main = Element ''main'' [] [TextNode (replicate 2001 CHR ''a'')]"

definition long_page :: node where
  "long_page = Element ''html'' [] [Element ''head'' [] [], Element ''body'' [] [long_main]]"

definition overlay_page :: node where
  "overlay_page = Element ''html'' [] [Element ''head'' [] [],
     Element ''body'' [] [Element ''div'' [(''id'', Some ''overlay'')] [TextNode ''x'']]]"

definition noisy_page :: node where
  "noisy_page = Element ''html'' [] [Element ''head'' [] [],
     Element ''body'' []
       [Element ''div'' [(''id'', Some ''overlay'')] [TextNode ''x''],
        Element ''div'' [(''class'', Some ''Cookie-Banner'')] [TextNode ''y'']]]"

definition article_page :: node where
  "article_page = Element ''html'' [] [Element ''head'' [] [],
     Element ''body'' []
       [Element ''main'' [] [TextNode ''short''],
        Element ''article'' [] [TextNode (replicate 250 CHR ''a'')]]]"

definition og_page :: node where
  "og_page = Element ''html'' []
     [Element ''head'' []
        [Element ''title'' [] [TextNode ''A''],
         Element ''meta'' [(''property'', Some ''og:title''), (''content'', Some ''B'')] []],
      Element ''body'' [] []]"

text \<open>A world without network and without a browser: every call raises.\<close>

definition no_network :: world where
  "no_network =
     \<lparr>http = (\<lambda>tr. Inl (Error ''ConnectError'')),
      act = (\<lambda>tr. Some (Error ''browser launch failed'')),
      read_str = (\<lambda>tr. Inl (Error ''no page'')),
      read_attr = (\<lambda>tr. Inl (Error ''no page'')),
      count_handles = (\<lambda>tr. Inl (Error ''no page'')),
      found = (\<lambda>tr. Inl (Error ''no page''))\<rparr>"

text \<open>The HTTP request answers with the given markup; the browser cannot be launched.\<close>

definition static_only :: "string \<Rightarrow> world" where
  "static_only html = no_network\<lparr>http := (\<lambda>tr. Inr html)\<rparr>"

text \<open>
  A site where every call succeeds and every page has a next-link to a page not seen
  before.
\<close>

definition paging_site :: "string \<Rightarrow> world" where
  "paging_site html =
     \<lparr>http = (\<lambda>tr. Inr html),
      act = (\<lambda>tr. None),
      read_str = (\<lambda>tr. Inr html),
      read_attr = (\<lambda>tr. if last tr = HrefOfFirst
                          then Inr (Some (''/page'' @ dec (length (gotos tr)))) else Inr None),
      count_handles = (\<lambda>tr. Inr 1),
      found = (\<lambda>tr. Inr False)\<rparr>"

text \<open>
  A live page showing a given tree, as the browser answers the four lookups of
  \<open>_extract_meta_js\<close>: \<open>page.title()\<close> is the document title (the text of the first
  \<open>title\<close> element, stripped, white space collapsed); \<open>page.get_attribute\<close> is the
  attribute of the first element the selector matches, and a timeout when none matches.
  In an HTML document the browser compares the value of \<open>rel\<close> without regard to
  case and the value of \<open>name\<close> as written.
\<close>

fun elements :: "node \<Rightarrow> node list" where
  "elements (TextNode s) = []"
| "elements (Element t a cs) = Element t a cs # concat (map elements cs)"

definition page_matches :: "string \<Rightarrow> node \<Rightarrow> bool" where
  "page_matches sel n =
     (if sel = ''meta[name=\"description\"]''
        then tag n = ''meta'' \<and> map_of (attributes n) ''name'' = Some (Some ''description'')
      else if sel = ''link[rel=\"canonical\"]''
        then tag n = ''link'' \<and>
             (case map_of (attributes n) ''rel'' of
                Some (Some x) \<Rightarrow> lower x = ''canonical'' | _ \<Rightarrow> False)
      else tag n = sel)"

definition live_attribute :: "node \<Rightarrow> call \<Rightarrow> exn + string option" where
  "live_attribute root c =
     (case c of
        GetAttribute sel k \<Rightarrow>
          (case find (page_matches sel) (elements root) of
             None \<Rightarrow> Inl (TimeoutError ''Timeout 30000ms exceeded'')
           | Some n \<Rightarrow>
              Inr (case map_of (attributes n) k of None \<Rightarrow> None
                   | Some None \<Rightarrow> Some [] | Some (Some v) \<Rightarrow> Some v))
      | _ \<Rightarrow> Inr None)"

definition live_page :: "node \<Rightarrow> world" where
  "live_page root =
     \<lparr>http = (\<lambda>tr. Inr (serialize root)),
      act = (\<lambda>tr. None),
      read_str = (\<lambda>tr. if last tr = Title
                         then Inr (case css_first (Tag [''title'']) root of None \<Rightarrow> []
                                   | Some t \<Rightarrow> collapse_ws (strip (node_text t)))
                         else Inr (serialize root)),
      read_attr = (\<lambda>tr. live_attribute root (last tr)),
      count_handles = (\<lambda>tr. Inr 0),
      found = (\<lambda>tr. Inr False)\<rparr>"


definition raw_lengths :: "exn + section_rec list \<Rightarrow> nat list" where
  "raw_lengths r = (case r of Inl e \<Rightarrow> [] | Inr ss \<Rightarrow> map (\<lambda>s. length (rawHtml s)) ss)"


section \<open>Decimal numerals\<close>

lemma of_char_digit: "d < 10 \<Longrightarrow> (of_char (digit_char d) :: nat) = 48 + d"
  by (simp add: digit_char_def)

lemma digit_char_inj: "a < 10 \<Longrightarrow> b < 10 \<Longrightarrow> digit_char a = digit_char b \<Longrightarrow> a = b"
proof -
  assume a: "a < 10" and b: "b < 10" and e: "digit_char a = digit_char b"
  have "(of_char (digit_char a) :: nat) = of_char (digit_char b)" by (simp only: e)
  then have "48 + a = 48 + b" by (simp only: of_char_digit[OF a] of_char_digit[OF b])
  then show "a = b" by simp
qed

lemma digit_char_not_dash: "d < 10 \<Longrightarrow> digit_char d \<noteq> CHR ''-''"
proof
  assume "d < 10" and "digit_char d = CHR ''-''"
  then have "(of_char (CHR ''-'') :: nat) = 48 + d" using of_char_digit[of d] by simp
  then show False by simp
qed

lemma dec_nonempty: "dec n \<noteq> []"
  by (subst dec.simps) simp

lemma dec_no_dash: "CHR ''-'' \<notin> set (dec n)"
proof (induction n rule: dec.induct)
  case (1 n)
  show ?case
  proof (cases "n < 10")
    case True
    then show ?thesis using digit_char_not_dash[of n] by (subst dec.simps) auto
  next
    case False
    then show ?thesis using 1 digit_char_not_dash[of "n mod 10"] by (subst dec.simps) auto
  qed
qed

lemma dec_inj: "dec n = dec m \<Longrightarrow> n = m"
proof (induction n arbitrary: m rule: dec.induct)
  case (1 n)
  show ?case
  proof (cases "n < 10")
    case n: True
    show ?thesis
    proof (cases "m < 10")
      case True
      with n 1(2) show ?thesis by (simp add: dec.simps[of n] dec.simps[of m] digit_char_inj)
    next
      case False
      with n 1(2) dec_nonempty[of "m div 10"] show ?thesis
        by (simp add: dec.simps[of n] dec.simps[of m])
    qed
  next
    case n: False
    show ?thesis
    proof (cases "m < 10")
      case True
      with n 1(2) dec_nonempty[of "n div 10"] show ?thesis
        by (simp add: dec.simps[of n] dec.simps[of m])
    next
      case False
      with n 1(2) have "dec (n div 10) = dec (m div 10)" and "digit_char (n mod 10) = digit_char (m mod 10)"
        by (simp_all add: dec.simps[of n] dec.simps[of m])
      with 1(1)[OF n] have "n div 10 = m div 10" and "n mod 10 = m mod 10"
        by (auto intro: digit_char_inj)
      then show ?thesis by (metis div_mult_mod_eq)
    qed
  qed
qed

lemma section_id_inj: "t1 @ ''-'' @ dec i = t2 @ ''-'' @ dec j \<Longrightarrow> i = j"
proof -
  assume a: "t1 @ ''-'' @ dec i = t2 @ ''-'' @ dec j"
  have tw: "takeWhile (\<lambda>c. c \<noteq> CHR ''-'') (rev (t @ ''-'' @ dec k)) = rev (dec k)" for t k
  proof -
    have "takeWhile (\<lambda>c. c \<noteq> CHR ''-'') (rev (dec k)) = rev (dec k)"
      using dec_no_dash[of k] by (auto simp: takeWhile_eq_all_conv)
    then show ?thesis by (simp add: takeWhile_tail)
  qed
  from a have "rev (dec i) = rev (dec j)" using tw[of t1 i] tw[of t2 j] by simp
  then show ?thesis using dec_inj by simp
qed


section \<open>Facts about section extraction\<close>

lemma extract_section_raw:
  "extract_section L (Some elem) base_url idx = Inr (Some s) \<Longrightarrow>
   truncated s = (length (html_of L elem) > 2000) \<and>
   (truncated s \<longrightarrow> rawHtml s = take 2000 (html_of L elem) @ ''...'') \<and>
   (\<not> truncated s \<longrightarrow> rawHtml s = html_of L elem)"
  by (auto simp: extract_section_def Let_def split: sum.splits)

lemma extract_section_caps:
  assumes "extract_section L e base_url idx = Inr (Some s)"
  shows "length (headings (content s)) \<le> 10" "length (text_c (content s)) \<le> 5000"
    "length (links (content s)) \<le> 50" "length (images (content s)) \<le> 20"
    "length (lists_c (content s)) \<le> 10" "length (rawHtml s) \<le> 2003"
  using assms by (auto simp: extract_section_def Let_def split: sum.splits option.splits)

lemma extract_section_id:
  "extract_section L e base_url idx = Inr (Some s) \<Longrightarrow> sec_id s = sec_type s @ ''-'' @ dec idx"
  by (auto simp: extract_section_def Let_def split: sum.splits option.splits)

lemma extract_section_present:
  "extract_section L (Some e) u i = Inr r \<Longrightarrow> r \<noteq> None"
  by (auto simp: extract_section_def Let_def split: sum.splits)

lemma extract_all_origin:
  "extract_all L u k es = Inr ss \<Longrightarrow> s \<in> set ss \<Longrightarrow>
   \<exists>e i. k \<le> i \<and> i < k + length es \<and> extract_section L e u i = Inr (Some s)"
proof (induction es arbitrary: k ss)
  case Nil
  then show ?case by simp
next
  case (Cons e es)
  from Cons.prems(1) obtain r ss' where
    r: "extract_section L e u k = Inr r" and
    t: "extract_all L u (Suc k) es = Inr ss'" and
    ss: "ss = (case r of None \<Rightarrow> [] | Some s \<Rightarrow> [s]) @ ss'"
    by (auto split: sum.splits)
  show ?case
  proof (cases "s \<in> set ss'")
    case True
    from Cons.IH[OF t True] obtain e' i where
      "Suc k \<le> i" "i < Suc k + length es" "extract_section L e' u i = Inr (Some s)" by blast
    then show ?thesis by (intro exI[of _ e'] exI[of _ i]) simp
  next
    case False
    with Cons.prems(2) ss have "r = Some s" by (auto split: option.splits)
    with r show ?thesis by (intro exI[of _ e] exI[of _ k]) simp
  qed
qed

lemma extract_all_distinct:
  "extract_all L u k es = Inr ss \<Longrightarrow> distinct (map sec_id ss)"
proof (induction es arbitrary: k ss)
  case Nil
  then show ?case by simp
next
  case (Cons e es)
  from Cons.prems obtain r ss' where
    r: "extract_section L e u k = Inr r" and
    t: "extract_all L u (Suc k) es = Inr ss'" and
    ss: "ss = (case r of None \<Rightarrow> [] | Some s \<Rightarrow> [s]) @ ss'"
    by (auto split: sum.splits)
  have d: "distinct (map sec_id ss')" by (rule Cons.IH[OF t])
  show ?case
  proof (cases r)
    case None
    with ss d show ?thesis by simp
  next
    case (Some s)
    have "sec_id s \<notin> sec_id ` set ss'"
    proof
      assume "sec_id s \<in> sec_id ` set ss'"
      then obtain s' where s': "s' \<in> set ss'" and eq: "sec_id s = sec_id s'" by blast
      from extract_all_origin[OF t s'] obtain e' i where
        i: "Suc k \<le> i" and x: "extract_section L e' u i = Inr (Some s')" by blast
      from r Some have "sec_id s = sec_type s @ ''-'' @ dec k" by (simp add: extract_section_id)
      moreover from x have "sec_id s' = sec_type s' @ ''-'' @ dec i" by (rule extract_section_id)
      ultimately have "k = i" using eq section_id_inj by metis
      with i show False by simp
    qed
    with ss d Some show ?thesis by simp
  qed
qed

lemma extract_all_positions:
  "None \<notin> set es \<Longrightarrow> extract_all L u k es = Inr ss \<Longrightarrow>
   length ss = length es \<and> (\<forall>i<length ss. sec_id (ss ! i) = sec_type (ss ! i) @ ''-'' @ dec (k + i))"
proof (induction es arbitrary: k ss)
  case Nil
  then show ?case by simp
next
  case (Cons e es)
  from Cons.prems(1) obtain el where e: "e = Some el" by (cases e) auto
  from Cons.prems(2) obtain r ss' where
    r: "extract_section L e u k = Inr r" and
    t: "extract_all L u (Suc k) es = Inr ss'" and
    ss: "ss = (case r of None \<Rightarrow> [] | Some s \<Rightarrow> [s]) @ ss'"
    by (auto split: sum.splits)
  from r e extract_section_present obtain s where s: "r = Some s" by blast
  from Cons.prems(1) have "None \<notin> set es" by simp
  from Cons.IH[OF this t] have
    l: "length ss' = length es" and
    p: "\<forall>i<length ss'. sec_id (ss' ! i) = sec_type (ss' ! i) @ ''-'' @ dec (Suc k + i)" by auto
  from r s have h: "sec_id s = sec_type s @ ''-'' @ dec k" by (simp add: extract_section_id)
  have "sec_id (ss ! i) = sec_type (ss ! i) @ ''-'' @ dec (k + i)" if "i < length ss" for i
  proof (cases i)
    case 0
    with ss s h show ?thesis by simp
  next
    case (Suc j)
    with that ss s have "j < length ss'" by simp
    with p Suc ss s show ?thesis by simp
  qed
  with ss s l show ?case by simp
qed

lemma parse_sections_origin:
  assumes "parse_sections L html u = Inr ss" and "s \<in> set ss"
  shows "(html = [] \<or> strip html = []) \<and> s = placeholder u
       \<or> \<not> (html = [] \<or> strip html = []) \<and> (\<exists>e i. i < 20 \<and> extract_section L e u i = Inr (Some s))"
proof (cases "html = [] \<or> strip html = []")
  case True
  with assms show ?thesis by (auto simp: parse_sections_def)
next
  case False
  define parser where "parser = remove_noise (Some (HTMLParser L html))"
  define body where "body = parser_body L (HTMLParser L html) parser"
  from assms(1) False obtain secs where
    a: "extract_all L u 0 (take 20 (section_elements body parser)) = Inr secs"
    by (auto simp: parse_sections_def parser_def body_def Let_def split: sum.splits)
  show ?thesis
  proof (cases "secs = []")
    case ne: False
    with assms(1) False a have "ss = secs" by (simp add: parse_sections_def parser_def body_def Let_def)
    with extract_all_origin[OF a] assms(2) obtain e i where
      "i < 0 + length (take 20 (section_elements body parser))" "extract_section L e u i = Inr (Some s)"
      by blast
    moreover then have "i < 20" by simp
    ultimately show ?thesis using False by blast
  next
    case True
    with assms False a have "\<exists>b. extract_section L (Some b) u 0 = Inr (Some s)"
      by (auto simp: parse_sections_def parser_def body_def Let_def split: option.splits sum.splits)
    then show ?thesis using False by (metis zero_less_numeral)
  qed
qed

lemma placeholder_caps:
  "length (headings (content (placeholder u))) = 0" "length (text_c (content (placeholder u))) = 0"
  "length (links (content (placeholder u))) = 0" "length (images (content (placeholder u))) = 0"
  "length (lists_c (content (placeholder u))) = 0" "length (rawHtml (placeholder u)) = 0"
  by (simp_all add: placeholder_def)

lemma parents_of_None:
  "None \<in> set (parents_of h p n) \<Longrightarrow> p = None \<and> tag n = h"
proof (induction n arbitrary: p)
  case (Element t a cs)
  show ?case
  proof (cases "None \<in> set (concat (map (parents_of h (Some (Element t a cs))) cs))")
    case True
    then obtain c where "c \<in> set cs" "None \<in> set (parents_of h (Some (Element t a cs)) c)"
      by auto
    with Element.IH show ?thesis by blast
  next
    case False
    with Element.prems show ?thesis by (auto split: if_splits)
  qed
next
  case (TextNode s)
  then show ?case by simp
qed

lemma heading_parents_None:
  "None \<in> set (heading_parents p n) \<Longrightarrow> p = None \<and> tag n \<in> set heading_tags"
  by (auto simp: heading_parents_def dest: parents_of_None)

lemma decompose_doc_tag: "decompose_doc sel (Some r) = Some r' \<Longrightarrow> tag r' = tag r"
  by (cases r) (auto simp: decompose_doc_def split: if_splits)

lemma fold_decompose_tag:
  "foldl (\<lambda>d sel. decompose_doc sel d) (Some r) sels = Some r' \<Longrightarrow> tag r' = tag r"
proof (induction sels arbitrary: r)
  case Nil
  then show ?case by simp
next
  case (Cons x sels)
  show ?case
  proof (cases "decompose_doc x (Some r)")
    case None
    have "foldl (\<lambda>d sel. decompose_doc sel d) None sels = None"
      by (induction sels) (simp_all add: decompose_doc_def)
    with Cons.prems None show ?thesis by simp
  next
    case (Some r1)
    with Cons.prems have "foldl (\<lambda>d sel. decompose_doc sel d) (Some r1) sels = Some r'" by simp
    from Cons.IH[OF this] decompose_doc_tag[OF Some] show ?thesis by simp
  qed
qed

lemma section_elements_present:
  assumes "tag root \<notin> set heading_tags"
  shows "None \<notin> set (section_elements body (remove_noise (Some root)))"
proof (cases "remove_noise (Some root)")
  case None
  then show ?thesis
    by (auto simp: section_elements_def doc_css_def heading_tags_def split: option.splits)
next
  case (Some r)
  then have "tag r = tag root" unfolding remove_noise_def by (rule fold_decompose_tag)
  with assms heading_parents_None[of None r] have "None \<notin> set (heading_parents None r)" by auto
  with Some show ?thesis
    by (auto simp: section_elements_def Let_def split: option.splits if_splits)
qed

lemma section_elements_long_page:
  "section_elements body (remove_noise (Some long_page)) = [Some long_main]"
  by (simp add: section_elements_def remove_noise_def noise_selectors_def decompose_doc_def
      long_page_def long_main_def doc_css_def landmark_tags_def)

lemma length_serialize_long_main: "length (serialize long_main) = 2014"
  by (simp add: long_main_def)

lemma extract_long_main_returns:
  "\<exists>s. extract_section (fixed_page long_page) (Some long_main) u 0 = Inr (Some s)"
  by (simp add: extract_section_def determine_type_def attr_lower_def long_main_def Let_def)

lemma not_blank_long_html: "\<not> (''<main>a...</main>'' = [] \<or> strip ''<main>a...</main>'' = [])"
  by (simp add: strip_def is_space_def)

lemma parse_long_page:
  assumes "extract_section (fixed_page long_page) (Some long_main) u 0 = Inr (Some s)"
  shows "parse_sections (fixed_page long_page) ''<main>a...</main>'' u = Inr [s]"
  using assms not_blank_long_html
  by (simp add: parse_sections_def section_elements_long_page fixed_page_def)

lemma parse_long_page_returns:
  "\<exists>s. parse_sections (fixed_page long_page) ''<main>a...</main>'' u = Inr [s]"
  using extract_long_main_returns parse_long_page by blast


section \<open>Facts about noise removal\<close>

lemma select_decompose_same: "\<not> hit sel n \<Longrightarrow> select_all sel (decompose_all sel n) = []"
proof (induction n)
  case (Element t a cs)
  then show ?case by auto
next
  case (TextNode s)
  then show ?case by simp
qed

lemma select_decompose_other: "select_all s n = [] \<Longrightarrow> select_all s (decompose_all sel n) = []"
proof (induction n)
  case (Element t a cs)
  then show ?case by (auto split: if_splits)
next
  case (TextNode x)
  then show ?case by simp
qed

lemma doc_css_decompose_same: "doc_css (AttrSub k v) (decompose_doc (AttrSub k v) d) = []"
  by (cases d) (simp_all add: doc_css_def decompose_doc_def select_decompose_same)

lemma doc_css_decompose_other:
  "doc_css (AttrSub k v) d = [] \<Longrightarrow> doc_css (AttrSub k v) (decompose_doc sel d) = []"
  by (cases d) (simp_all add: doc_css_def decompose_doc_def select_decompose_other)

lemma doc_css_fold_keeps:
  "doc_css (AttrSub k v) d = [] \<Longrightarrow>
   doc_css (AttrSub k v) (foldl (\<lambda>d sel. decompose_doc sel d) d sels) = []"
  by (induction sels arbitrary: d) (simp_all add: doc_css_decompose_other)

lemma doc_css_fold_removes:
  "AttrSub k v \<in> set sels \<Longrightarrow>
   doc_css (AttrSub k v) (foldl (\<lambda>d sel. decompose_doc sel d) d sels) = []"
proof (induction sels arbitrary: d)
  case Nil
  then show ?case by simp
next
  case (Cons x sels)
  show ?case
  proof (cases "AttrSub k v = x")
    case True
    then show ?thesis by (auto simp: doc_css_fold_keeps doc_css_decompose_same)
  next
    case False
    with Cons show ?thesis by simp
  qed
qed

lemma noise_selector_selects_nothing:
  "AttrSub k v \<in> set noise_selectors \<Longrightarrow> doc_css (AttrSub k v) (remove_noise d) = []"
  unfolding remove_noise_def by (rule doc_css_fold_removes)

section \<open>Facts about traces\<close>

lemma gotos_append: "gotos (a @ b) = gotos a @ gotos b"
  by (induction a rule: gotos.induct) simp_all

lemma same_marks_refl: "same_marks tr tr"
  by (simp add: same_marks_def)

lemma same_marks_trans: "same_marks a b \<Longrightarrow> same_marks b c \<Longrightarrow> same_marks a c"
  by (simp add: same_marks_def)

lemma same_marks_snoc:
  "\<not> is_invoke c \<Longrightarrow> gotos [c] = [] \<Longrightarrow> same_marks tr (tr @ [c])"
  by (simp add: same_marks_def gotos_append)

lemma meta_js_marks: "same_marks tr (snd (extract_meta_js W tr))"
  by (simp add: extract_meta_js_def Let_def same_marks_def gotos_append)

lemma harvest_marks: "same_marks tr (snd (harvest L W errs lg tr))"
proof -
  have a: "same_marks tr (tr @ [Content])" by (simp add: same_marks_snoc)
  have b: "same_marks (tr @ [Content]) (snd (extract_meta_js W (tr @ [Content])))"
    by (rule meta_js_marks)
  show ?thesis
    using a b
    by (auto simp: harvest_def Let_def same_marks_def gotos_append split: sum.splits option.splits prod.splits)
qed

lemma harvest_result:
  "fst (harvest L W errs lg tr) = Inr (h, m, e, lg') \<Longrightarrow> lg' = lg \<and> e = errs"
  by (auto simp: harvest_def Let_def split: sum.splits option.splits prod.splits)

lemma harvest_timeout_marks: "same_marks tr (snd (harvest_timeout W errs lg tr))"
proof -
  have b: "same_marks (tr @ [Content]) (snd (extract_meta_js W (tr @ [Content])))"
    by (rule meta_js_marks)
  show ?thesis
    using b
    by (auto simp: harvest_timeout_def Let_def same_marks_def gotos_append split: sum.splits option.splits prod.splits)
qed

lemma js_handler_marks: "same_marks tr (snd (js_handler L W url e tr))"
  by (cases e) (simp_all add: js_handler_def harvest_marks harvest_timeout_marks)

lemma click_tabs_quiet:
  "click_tabs W is (lg, tr) = (lg', tr') \<Longrightarrow> pages lg' = pages lg \<and> same_marks tr tr'"
proof (induction "is" arbitrary: lg tr)
  case Nil
  then show ?case by (simp add: same_marks_refl)
next
  case (Cons i "is")
  have s: "same_marks tr (tr @ [ClickHandle i])" by (simp add: same_marks_snoc)
  show ?case
  proof (cases "act W (tr @ [ClickHandle i])")
    case None
    with Cons.prems have "click_tabs W is (lg\<lparr>clicks := clicks lg @ [''[role=\"tab\"]'']\<rparr>, tr @ [ClickHandle i]) = (lg', tr')"
      by (simp add: Let_def)
    from Cons.IH[OF this] s show ?thesis by (auto intro: same_marks_trans)
  next
    case (Some e)
    with Cons.prems have "click_tabs W is (lg, tr @ [ClickHandle i]) = (lg', tr')"
      by (simp add: Let_def)
    from Cons.IH[OF this] s show ?thesis by (auto intro: same_marks_trans)
  qed
qed

lemma click_load_more_quiet:
  "click_load_more W sels (lg, tr) = (lg', tr') \<Longrightarrow> pages lg' = pages lg \<and> same_marks tr tr'"
proof (induction sels arbitrary: lg tr)
  case Nil
  then show ?case by (simp add: same_marks_refl)
next
  case (Cons sel sels)
  let ?t1 = "tr @ [QuerySelector sel]"
  let ?t2 = "?t1 @ [ClickButton sel]"
  have s1: "same_marks tr ?t1" by (simp add: same_marks_snoc)
  have s2: "same_marks tr ?t2" by (simp add: same_marks_def gotos_append)
  consider (clicked) "found W ?t1 = Inr True" "act W ?t2 = None"
    | (failed) "found W ?t1 = Inr True" "act W ?t2 \<noteq> None"
    | (absent) "found W ?t1 \<noteq> Inr True" by blast
  then show ?case
  proof cases
    case clicked
    with Cons.prems s2 show ?thesis by (auto simp: Let_def)
  next
    case failed
    with Cons.prems have "click_load_more W sels (lg, ?t2) = (lg', tr')"
      by (auto simp: Let_def)
    from Cons.IH[OF this] s2 show ?thesis by (auto intro: same_marks_trans)
  next
    case absent
    with Cons.prems have "click_load_more W sels (lg, ?t1) = (lg', tr')"
      by (auto simp: Let_def split: sum.splits bool.splits)
    from Cons.IH[OF this] s1 show ?thesis by (auto intro: same_marks_trans)
  qed
qed

lemma grows_trans: "grows n a b \<Longrightarrow> grows m b c \<Longrightarrow> grows (n + m) a c"
  unfolding grows_def
  by (elim conjE exE, intro conjI, simp)
     (metis (no_types, lifting) add_mono append.assoc length_append)

lemma grows_quiet:
  "pages (fst s') = pages (fst s) \<Longrightarrow> same_marks (snd s) (snd s') \<Longrightarrow> grows 0 s s'"
  by (simp add: grows_def same_marks_def)

lemma grows_mono: "grows n a b \<Longrightarrow> n \<le> m \<Longrightarrow> grows m a b"
  unfolding grows_def by (meson le_trans)

lemma paginate_grows: "grows 1 (lg, tr) (paginate L W url (lg, tr))"
  by (auto simp: paginate_def grows_def Let_def gotos_append split: sum.splits option.splits)

lemma rounds_grows:
  "rounds L W url is s = (r, s') \<Longrightarrow> grows (length (filter (\<lambda>i. i < 2) is)) s s'"
proof (induction "is" arbitrary: s)
  case Nil
  then show ?case by (simp add: grows_def)
next
  case (Cons i "is")
  obtain lg tr where s: "s = (lg, tr)" by (cases s)
  let ?t1 = "tr @ [Evaluate scroll_script]"
  let ?lg1 = "lg\<lparr>scrolls := scrolls lg + 1\<rparr>"
  let ?t2 = "?t1 @ [QuerySelectorAll next_selector]"
  let ?n = "length (filter (\<lambda>i. i < 2) is)"
  have q1: "grows 0 s (lg, ?t1)" using s by (simp add: grows_def gotos_append)
  have q2: "grows 0 s (?lg1, ?t2)" using s by (simp add: grows_def gotos_append)
  show ?case
  proof (cases "act W ?t1")
    case (Some e)
    with Cons.prems s have "s' = (lg, ?t1)" by (simp add: Let_def)
    with q1 show ?thesis by (auto intro: grows_mono)
  next
    case None
    show ?thesis
    proof (cases "count_handles W ?t2")
      case (Inl e)
      with Cons.prems s None have "s' = (?lg1, ?t2)" by (simp add: Let_def)
      with q2 show ?thesis by (auto intro: grows_mono)
    next
      case (Inr n)
      show ?thesis
      proof (cases "n > 0 \<and> i < 2")
        case True
        with Cons.prems s None Inr have "rounds L W url is (paginate L W url (?lg1, ?t2)) = (r, s')"
          by (simp add: Let_def)
        from Cons.IH[OF this] have "grows ?n (paginate L W url (?lg1, ?t2)) s'" .
        from grows_trans[OF paginate_grows this] have "grows (1 + ?n) (?lg1, ?t2) s'" .
        from grows_trans[OF q2 this] have "grows (0 + (1 + ?n)) s s'" .
        with True show ?thesis by simp
      next
        case False
        with Cons.prems s None Inr have "rounds L W url is (?lg1, ?t2) = (r, s')"
          by (auto simp: Let_def)
        from grows_trans[OF q2 Cons.IH[OF this]] have "grows (0 + ?n) s s'" .
        then show ?thesis by (auto intro: grows_mono)
      qed
    qed
  qed
qed

lemma grows_then_quiet:
  "grows n a (lg, t) \<Longrightarrow> same_marks t t' \<Longrightarrow> grows n a (lg, t')"
  by (simp add: grows_def same_marks_def)

lemma interact_grows:
  assumes "interact L W url tr = (r, (lg, tr'))"
  shows "grows 2 (initial_log url, tr @ [Goto url]) (lg, tr')"
proof -
  let ?s0 = "(initial_log url, tr @ [Goto url])"
  let ?t1 = "tr @ [Goto url]"
  let ?t2 = "?t1 @ [QuerySelectorAll tab_selector]"
  have g0: "grows 0 ?s0 ?s0" by (simp add: grows_def)
  have g2: "grows 0 ?s0 (initial_log url, ?t2)"
    using g0 by (rule grows_then_quiet) (simp add: same_marks_def gotos_append)
  show ?thesis
  proof (cases "act W ?t1")
    case (Some e)
    with assms have "(lg, tr') = ?s0" by (simp add: interact_def Let_def)
    with g0 show ?thesis by (auto intro: grows_mono)
  next
    case None
    show ?thesis
    proof (cases "count_handles W ?t2")
      case (Inl e)
      with assms None have "(lg, tr') = (initial_log url, ?t2)" by (simp add: interact_def Let_def)
      with g2 show ?thesis by (auto intro: grows_mono)
    next
      case (Inr n)
      obtain l1 t1 where s1: "click_tabs W [0 ..< min n 3] (initial_log url, ?t2) = (l1, t1)"
        by (cases "click_tabs W [0 ..< min n 3] (initial_log url, ?t2)")
      obtain l2 t2 where s2: "click_load_more W load_more_selectors (l1, t1) = (l2, t2)"
        by (cases "click_load_more W load_more_selectors (l1, t1)")
      obtain r3 l3 t3 where s3: "rounds L W url [0, 1, 2] (l2, t2) = (r3, (l3, t3))"
        by (cases "rounds L W url [0, 1, 2] (l2, t2)") auto
      from click_tabs_quiet[OF s1] have "grows 0 (initial_log url, ?t2) (l1, t1)"
        by (simp add: grows_quiet)
      from grows_trans[OF g2 this] have a: "grows 0 ?s0 (l1, t1)" by simp
      from click_load_more_quiet[OF s2] have "grows 0 (l1, t1) (l2, t2)"
        by (simp add: grows_quiet)
      from grows_trans[OF a this] have b: "grows 0 ?s0 (l2, t2)" by simp
      from rounds_grows[OF s3] have "grows 2 (l2, t2) (l3, t3)" by (simp add: numeral_2_eq_2)
      from grows_trans[OF b this] have c: "grows 2 ?s0 (l3, t3)" by (simp add: numeral_2_eq_2)
      show ?thesis
      proof (cases r3)
        case (Some e)
        with assms None Inr s1 s2 s3 have "(lg, tr') = (l3, t3)"
          by (simp add: interact_def Let_def)
        with c show ?thesis by simp
      next
        case rn: None
        let ?t4 = "t3 @ [Content]"
        have q4: "same_marks t3 ?t4" by (simp add: same_marks_snoc)
        show ?thesis
        proof (cases "read_str W ?t4")
          case (Inl e)
          with assms None Inr s1 s2 s3 rn have "(lg, tr') = (l3, ?t4)"
            by (simp add: interact_def Let_def)
          with grows_then_quiet[OF c q4] show ?thesis by simp
        next
          case h: (Inr html)
          obtain m t5 where m: "extract_meta_js W ?t4 = (m, t5)"
            by (cases "extract_meta_js W ?t4")
          have q5: "same_marks ?t4 t5" using meta_js_marks[of ?t4 W] m by simp
          have q6: "same_marks t5 (t5 @ [ClosePage])" by (simp add: same_marks_snoc)
          from assms None Inr s1 s2 s3 rn h m have "(lg, tr') = (l3, t5 @ [ClosePage])"
            by (auto simp: interact_def Let_def split: option.splits)
          with grows_then_quiet[OF c same_marks_trans[OF q4 same_marks_trans[OF q5 q6]]]
          show ?thesis by simp
        qed
      qed
    qed
  qed
qed

lemma interact_pages:
  assumes "interact L W url tr = (r, (lg, tr'))"
  shows "filter is_invoke tr' = filter is_invoke tr \<and> gotos tr' = gotos tr @ pages lg \<and>
         distinct (pages lg) \<and> hd (pages lg) = url \<and> length (pages lg) \<le> 3"
  using interact_grows[OF assms]
  by (auto simp: grows_def initial_log_def gotos_append)

lemma js_scrape_for_interactions_invokes:
  "filter is_invoke (snd (js_scrape_for_interactions L W url tr))
     = filter is_invoke tr @ [Invoke JsScrapeForInteractions url]"
proof -
  let ?t1 = "tr @ [Invoke JsScrapeForInteractions url, GetBrowser]"
  let ?t2 = "?t1 @ [NewPage]"
  obtain r lg t where i: "interact L W url ?t2 = (r, (lg, t))"
    by (cases "interact L W url ?t2") auto
  from interact_pages[OF i] have t: "filter is_invoke t = filter is_invoke tr @ [Invoke JsScrapeForInteractions url]"
    by simp
  have "filter is_invoke (snd (harvest L W errs lg t)) = filter is_invoke t" for errs
    using harvest_marks[of t L W errs lg] by (simp add: same_marks_def)
  with t i show ?thesis
    by (auto simp: js_scrape_for_interactions_def Let_def split: option.splits sum.splits)
qed

lemma js_scrape_for_interactions_pages:
  assumes "js_scrape_for_interactions L W url tr = (Inr (html, m, errs, lg), tr')"
  shows "gotos tr' = gotos tr @ pages lg \<and> distinct (pages lg) \<and> hd (pages lg) = url \<and>
         length (pages lg) \<le> 3"
proof -
  let ?t1 = "tr @ [Invoke JsScrapeForInteractions url, GetBrowser]"
  let ?t2 = "?t1 @ [NewPage]"
  obtain r l t where i: "interact L W url ?t2 = (r, (l, t))"
    by (cases "interact L W url ?t2") auto
  from interact_pages[OF i] have p: "gotos t = gotos tr @ pages l" "distinct (pages l)"
    "hd (pages l) = url" "length (pages l) \<le> 3"
    by (simp_all add: gotos_append)
  from assms i have ok: "act W ?t1 = None" "act W ?t2 = None"
    by (auto simp: js_scrape_for_interactions_def Let_def split: option.splits)
  show ?thesis
  proof (cases r)
    case (Inr hm)
    with assms i ok have "lg = l" "tr' = t"
      by (auto simp: js_scrape_for_interactions_def Let_def split: prod.splits)
    with p show ?thesis by simp
  next
    case (Inl e)
    with assms i ok have h: "harvest L W [render_error ''Interaction error: '' e] l t = (Inr (html, m, errs, lg), tr')"
      by (simp add: js_scrape_for_interactions_def Let_def)
    then have "fst (harvest L W [render_error ''Interaction error: '' e] l t) = Inr (html, m, errs, lg)"
      by simp
    then have "lg = l" by (auto dest: harvest_result)
    moreover have "gotos tr' = gotos t"
      using harvest_marks[of t L W "[render_error ''Interaction error: '' e]" l]
      by (simp add: h same_marks_def)
    ultimately show ?thesis using p by simp
  qed
qed

lemma js_scrape_invokes:
  "filter is_invoke (snd (js_scrape L W url tr)) = filter is_invoke tr @ [Invoke JsScrape url]"
proof -
  have h: "filter is_invoke (snd (js_handler L W url e t)) = filter is_invoke t" for e t
    using js_handler_marks[of t L W url e] by (simp add: same_marks_def)
  have m: "filter is_invoke (snd (extract_meta_js W t)) = filter is_invoke t" for t
    using meta_js_marks[of t W] by (simp add: same_marks_def)
  show ?thesis
    using m[of "tr @ [Invoke JsScrape url, GetBrowser, NewPage, Goto url, Content]"]
    by (auto simp: js_scrape_def Let_def h split: option.splits sum.splits prod.splits)
qed

lemma paging_site_run:
  "\<exists>h m e lg t.
     js_scrape_for_interactions (fixed_page empty_document) (paging_site ''<html></html>'')
       ''http://example.com'' [] = (Inr (h, m, e, lg), t) \<and>
     pages lg = [''http://example.com'', ''http://example.com/page1'', ''http://example.com/page2'']"
proof -
  have "case js_scrape_for_interactions (fixed_page empty_document) (paging_site ''<html></html>'')
          ''http://example.com'' [] of
          (Inr (h, m, e, lg), t) \<Rightarrow>
            pages lg = [''http://example.com'', ''http://example.com/page1'', ''http://example.com/page2'']
        | _ \<Rightarrow> False"
    by code_simp
  then show ?thesis by (auto split: prod.splits sum.splits)
qed


section \<open>Facts about the fetch strategy\<close>

lemma static_scrape_ok:
  "http W [Invoke StaticScrape url, HttpGet url] = Inr html \<Longrightarrow>
   static_scrape L W url [] = (Inr (html, extract_meta_static L html), [Invoke StaticScrape url, HttpGet url])"
  by (simp add: static_scrape_def)

lemma static_scrape_fails:
  "http W [Invoke StaticScrape url, HttpGet url] = Inl e \<Longrightarrow>
   static_scrape L W url [] = (Inl e, [Invoke StaticScrape url, HttpGet url])"
  by (simp add: static_scrape_def)

lemma scrape_trace:
  "snd (scrape L W url t) =
     (case static_first L W url of (Inr r, tr) \<Rightarrow> tr | (Inl e, tr) \<Rightarrow> snd (js_scrape L W url tr))"
  by (auto simp: scrape_def Let_def split: prod.splits sum.splits)

lemma static_first_invokes:
  assumes "http W [Invoke StaticScrape url, HttpGet url] = Inr html"
  shows "filter is_invoke (snd (static_first L W url)) =
           [Invoke StaticScrape url,
            Invoke (if needs_full_render L html then JsScrape else JsScrapeForInteractions) url]"
  using static_scrape_ok[OF assms, of L]
  by (simp add: static_first_def js_scrape_invokes js_scrape_for_interactions_invokes)

lemma scrape_invokes:
  assumes "http W [Invoke StaticScrape url, HttpGet url] = Inr html"
  shows "filter is_invoke (snd (scrape L W url t)) =
           [Invoke StaticScrape url,
            Invoke (if needs_full_render L html then JsScrape else JsScrapeForInteractions) url]
           @ (if isl (fst (static_first L W url)) then [Invoke JsScrape url] else [])"
proof (cases "static_first L W url")
  case (Pair r tr)
  with static_first_invokes[OF assms, of L] have tr: "filter is_invoke tr =
    [Invoke StaticScrape url,
     Invoke (if needs_full_render L html then JsScrape else JsScrapeForInteractions) url]"
    by simp
  show ?thesis
  proof (cases r)
    case (Inl e)
    with Pair tr show ?thesis by (simp add: scrape_trace js_scrape_invokes)
  next
    case (Inr x)
    with Pair tr show ?thesis by (simp add: scrape_trace)
  qed
qed

lemma has_main_content_first:
  "has_main_content L html \<longleftrightarrow>
     (case css (Tag [''main'']) (HTMLParser L html) of
        m # _ \<Rightarrow> 100 < length (strip (node_text m))
      | [] \<Rightarrow> (case css (Tag [''article'']) (HTMLParser L html) of
                 a # _ \<Rightarrow> 100 < length (strip (node_text a))
               | [] \<Rightarrow> False))"
  by (simp add: has_main_content_def css_first_def Let_def split: list.splits)

lemma parse_sections_blank: "parse_sections L [] url = Inr [placeholder url]"
  by (simp add: parse_sections_def)

lemma scrape_both_fail:
  assumes "http W [Invoke StaticScrape url, HttpGet url] = Inl e1"
    and "fst (js_scrape L W url [Invoke StaticScrape url, HttpGet url]) = Inl e2"
  shows "fst (scrape L W url t) =
     Inr \<lparr>url_r = url, scrapedAt = t, meta = extract_meta_static L [],
          sections = [placeholder url], interactions = initial_log url,
          errors = [\<lparr>message = ''Static scrape failed: '' @ exn_str e1, phase = ''fetch''\<rparr>,
                    \<lparr>message = ''JS scrape failed: '' @ exn_str e2, phase = ''render''\<rparr>]\<rparr>"
proof -
  obtain tr2 where j: "js_scrape L W url [Invoke StaticScrape url, HttpGet url] = (Inl e2, tr2)"
    using assms(2) by (cases "js_scrape L W url [Invoke StaticScrape url, HttpGet url]") auto
  from static_scrape_fails[OF assms(1), of L] have
    "static_first L W url = (Inl e1, [Invoke StaticScrape url, HttpGet url])"
    by (simp add: static_first_def)
  with j show ?thesis
    by (simp add: scrape_def assemble_def parse_sections_blank render_error_def)
qed

lemma extract_meta_static_empty:
  "HTMLParser L [] = empty_document \<Longrightarrow> extract_meta_static L [] = default_meta"
  by (simp add: extract_meta_static_def empty_document_def default_meta_def content_of_def
      css_first_def attr_truthy_def Let_def)

lemma no_network_fails:
  "http no_network tr = Inl (Error ''ConnectError'')"
  "fst (js_scrape L no_network url tr) = Inl (Error ''browser launch failed'')"
  by (simp_all add: no_network_def js_scrape_def)





lemma strip_replicate: "\<not> is_space c \<Longrightarrow> strip (replicate n c) = replicate n c"
  by (simp add: strip_def dropWhile_replicate)

lemma long_page_adequate: "\<not> needs_full_render (fixed_page long_page) html"
  by (simp add: needs_full_render_def body_text_def has_main_content_def fixed_page_def
      long_page_def long_main_def doc_body_def css_first_def strip_replicate is_space_def)

lemma paging_site_interaction_returns:
  "\<not> isl (fst (js_scrape_for_interactions (fixed_page long_page) (paging_site ''<main>a...</main>'')
      ''http://example.com'' [Invoke StaticScrape ''http://example.com'', HttpGet ''http://example.com'']))"
  by code_simp


section \<open>Facts about the live page\<close>

lemma select_all_filter: "select_all sel n = filter (hit sel) (elements n)"
  by (induction n) (auto simp: filter_concat comp_def intro: arg_cong[where f=concat])

lemma find_filter: "find P xs = (case filter P xs of [] \<Rightarrow> None | x # _ \<Rightarrow> Some x)"
  by (induction xs) auto

lemma elements_are_elements: "n \<in> set (elements r) \<Longrightarrow> \<exists>t a cs. n = Element t a cs"
  by (induction r) auto

lemma css_first_find:
  "css_first (TagAttrEq tg k v) root = find (hit (TagAttrEq tg k v)) (elements root)"
  "css_first (Tag [h]) root = find (hit (Tag [h])) (elements root)"
  by (simp_all add: css_first_def select_all_filter find_filter)

lemma lower_canonical: "lower ''canonical'' = ''canonical''"
  by code_simp

lemma page_matches_html:
  "find (page_matches ''html'') (elements root) = css_first (Tag [''html'']) root"
  unfolding css_first_find
  by (rule find_cong) (auto simp: page_matches_def dest!: elements_are_elements)

lemma page_matches_canonical:
  "find (page_matches ''link[rel=\"canonical\"]'') (elements root)
     = css_first (TagAttrEq ''link'' ''rel'' ''canonical'') root"
  unfolding css_first_find
  by (rule find_cong) (auto simp: page_matches_def lower_canonical dest!: elements_are_elements split: option.splits)


section \<open>C1: the section list is never empty\<close>

text \<open>
  C1. The claim: for every markup and base URL the section parser returns a non-empty
  list, also for markup without landmarks, headings and body element. The parser's
  last step (\<open># Ensure at least one section\<close>) adds a section only \<open>if body\<close>: on a
  document without a body element, landmarks and headings (a frameset document) the
  result is the empty list.
\<close>

theorem parse_sections_frameset_empty:
  "parse_sections (fixed_page frameset_page) ''<frameset></frameset>'' ''http://example.com'' = Inr []"
  by (simp add: parse_sections_def strip_def is_space_def fixed_page_def frameset_page_def
      remove_noise_def noise_selectors_def decompose_doc_def section_elements_def doc_css_def
      landmark_tags_def heading_parents_def heading_tags_def parser_body_def doc_body_def)

text \<open>
  Whenever the parsed tree has a body element and no exception leaves the parser, the
  list is not empty.
\<close>

theorem parse_sections_nonempty_with_body:
  assumes "parse_sections L html u = Inr ss"
    and "doc_body (Some (HTMLParser L html)) \<noteq> None"
  shows "ss \<noteq> []"
proof (cases "html = [] \<or> strip html = []")
  case True
  with assms(1) show ?thesis by (auto simp: parse_sections_def)
next
  case False
  have "parser_body L (HTMLParser L html) (remove_noise (Some (HTMLParser L html))) \<noteq> None"
    using assms(2)
    by (cases "doc_body (remove_noise (Some (HTMLParser L html)))") (auto simp: parser_body_def)
  then obtain b where
    b: "parser_body L (HTMLParser L html) (remove_noise (Some (HTMLParser L html))) = Some b"
    by blast
  show ?thesis
  proof
    assume "ss = []"
    with assms(1) False b have "extract_section L (Some b) u 0 = Inr None"
      by (auto simp: parse_sections_def Let_def split: sum.splits option.splits if_splits)
    with extract_section_present show False by blast
  qed
qed

theorem parse_sections_nonempty_with_body_witness:
  "\<exists>ss. parse_sections (fixed_page long_page) ''<main>a...</main>'' ''http://example.com'' = Inr ss
     \<and> ss \<noteq> []"
proof -
  obtain s where p:
    "parse_sections (fixed_page long_page) ''<main>a...</main>'' ''http://example.com'' = Inr [s]"
    using parse_long_page_returns by blast
  have "doc_body (Some (HTMLParser (fixed_page long_page) ''<main>a...</main>'')) \<noteq> None"
    by (simp add: fixed_page_def long_page_def doc_body_def)
  from parse_sections_nonempty_with_body[OF p this] p show ?thesis by blast
qed


section \<open>C2: the choice of the render path\<close>

text \<open>
  C2, as the code has it. After a successful static fetch the methods entered are the
  static fetch, then the full render fetch if the stripped body text has fewer than 200
  characters or there is no main content, else the interaction-simulation fetch; the
  full render fetch is entered once more, as the fallback, exactly when the \<open>try\<close>
  block of \<open>scrape\<close> was left by an exception. Main content is decided by the first
  \<open>main\<close> element alone when there is one (more than 100 characters of stripped
  text), and by the first \<open>article\<close> element only when there is no \<open>main\<close> element.
\<close>

theorem render_path_after_static_fetch:
  assumes "http W [Invoke StaticScrape url, HttpGet url] = Inr html"
  shows "filter is_invoke (snd (scrape L W url t)) =
           [Invoke StaticScrape url,
            Invoke (if length (strip (body_text L html)) < 200 \<or> \<not> has_main_content L html
                    then JsScrape else JsScrapeForInteractions) url]
           @ (if isl (fst (static_first L W url)) then [Invoke JsScrape url] else [])
       \<and> (has_main_content L html \<longleftrightarrow>
            (case css (Tag [''main'']) (HTMLParser L html) of
               m # _ \<Rightarrow> 100 < length (strip (node_text m))
             | [] \<Rightarrow> (case css (Tag [''article'']) (HTMLParser L html) of
                        a # _ \<Rightarrow> 100 < length (strip (node_text a))
                      | [] \<Rightarrow> False)))"
  using scrape_invokes[OF assms, of L t] has_main_content_first[of L html]
  by (simp add: needs_full_render_def)

theorem render_path_after_static_fetch_witness:
  "filter is_invoke (snd (scrape (fixed_page long_page) (paging_site ''<main>a...</main>'')
      ''http://example.com'' ''t''))
   = [Invoke StaticScrape ''http://example.com'', Invoke JsScrapeForInteractions ''http://example.com'']"
proof -
  have h: "http (paging_site ''<main>a...</main>'')
             [Invoke StaticScrape ''http://example.com'', HttpGet ''http://example.com'']
           = Inr ''<main>a...</main>''"
    by (simp add: paging_site_def)
  have s: "static_first (fixed_page long_page) (paging_site ''<main>a...</main>'') ''http://example.com''
     = js_scrape_for_interactions (fixed_page long_page) (paging_site ''<main>a...</main>'')
      ''http://example.com'' [Invoke StaticScrape ''http://example.com'', HttpGet ''http://example.com'']"
    using static_scrape_ok[OF h] long_page_adequate by (simp add: static_first_def)
  from render_path_after_static_fetch[OF h, of "fixed_page long_page" "''t''"] long_page_adequate paging_site_interaction_returns
  show ?thesis by (simp add: s needs_full_render_def)
qed

text \<open>
  The claim fails twice. A page whose \<open>main\<close> element is short and whose \<open>article\<close>
  element has 250 characters (255 characters of body text) gets the full render fetch,
  not the interaction simulation. And on a page with enough text and main content, a
  browser that cannot be launched makes the interaction-simulation fetch raise, and the
  full render fetch is entered after it.
\<close>

theorem render_path_counterexample:
  "filter is_invoke (snd (scrape (fixed_page article_page) (paging_site ''<html>...</html>'')
       ''http://example.com'' ''t''))
     = [Invoke StaticScrape ''http://example.com'', Invoke JsScrape ''http://example.com''] \<and>
   length (strip (body_text (fixed_page article_page) ''<html>...</html>'')) = 255 \<and>
   css (Tag [''article'']) (HTMLParser (fixed_page article_page) ''<html>...</html>'')
     = [Element ''article'' [] [TextNode (replicate 250 CHR ''a'')]] \<and>
   length (strip (node_text (Element ''article'' [] [TextNode (replicate 250 CHR ''a'')]))) = 250 \<and>
   filter is_invoke (snd (scrape (fixed_page long_page) (static_only ''<html>...</html>'')
       ''http://example.com'' ''t''))
     = [Invoke StaticScrape ''http://example.com'', Invoke JsScrapeForInteractions ''http://example.com'',
        Invoke JsScrape ''http://example.com''] \<and>
   length (strip (body_text (fixed_page long_page) ''<html>...</html>'')) = 2001 \<and>
   has_main_content (fixed_page long_page) ''<html>...</html>''"
proof -
  have a: "filter is_invoke (snd (scrape (fixed_page article_page) (paging_site ''<html>...</html>'')
       ''http://example.com'' ''t''))
     = [Invoke StaticScrape ''http://example.com'', Invoke JsScrape ''http://example.com'']"
    by code_simp
  have b: "length (strip (body_text (fixed_page article_page) ''<html>...</html>'')) = 255"
    by code_simp
  have c: "css (Tag [''article'']) (HTMLParser (fixed_page article_page) ''<html>...</html>'')
     = [Element ''article'' [] [TextNode (replicate 250 CHR ''a'')]]"
    by (simp add: fixed_page_def article_page_def)
  have d: "length (strip (node_text (Element ''article'' [] [TextNode (replicate 250 CHR ''a'')]))) = 250"
    by (simp add: strip_replicate is_space_def)
  have e: "filter is_invoke (snd (scrape (fixed_page long_page) (static_only ''<html>...</html>'')
       ''http://example.com'' ''t''))
     = [Invoke StaticScrape ''http://example.com'', Invoke JsScrapeForInteractions ''http://example.com'',
        Invoke JsScrape ''http://example.com'']"
    by code_simp
  have f: "length (strip (body_text (fixed_page long_page) ''<html>...</html>'')) = 2001"
    by (simp add: body_text_def fixed_page_def long_page_def long_main_def doc_body_def
        strip_replicate is_space_def)
  have g: "has_main_content (fixed_page long_page) ''<html>...</html>''"
    by (simp add: has_main_content_def fixed_page_def long_page_def long_main_def css_first_def
        strip_replicate is_space_def)
  from a b c d e f g show ?thesis by blast
qed


section \<open>C3: the two metadata extractors\<close>

text \<open>
  C3. The claim: both extractors give the same record, the title being the \<open>title\<close>
  text overridden by \<open>og:title\<close>. On a page with the title \<open>A\<close> and the \<open>og:title\<close>
  \<open>B\<close> the static extractor gives \<open>B\<close>, and the live-page extractor, which has no
  lookup of \<open>og:title\<close> or \<open>og:description\<close>, gives \<open>A\<close>.
\<close>

theorem og_title_only_on_static_path:
  "title (extract_meta_static (fixed_page og_page) (serialize og_page)) = ''B'' \<and>
   title (fst (extract_meta_js (live_page og_page) [NewPage, Goto ''http://example.com''])) = ''A''"
  by code_simp

text \<open>The language and the canonical URL do agree on the two paths, for every page.\<close>

theorem live_language_and_canonical_agree:
  "language (fst (extract_meta_js (live_page (HTMLParser L html)) tr))
     = language (extract_meta_static L html) \<and>
   canonical (fst (extract_meta_js (live_page (HTMLParser L html)) tr))
     = canonical (extract_meta_static L html)"
  by (auto simp: extract_meta_js_def extract_meta_static_def live_page_def live_attribute_def
      page_matches_html page_matches_canonical content_of_def attr_truthy_def Let_def
      split: option.splits)


section \<open>C4: bounds of the content block\<close>

text \<open>
  C4, as the code has it. For every markup and every section of the result: at most 10
  headings, 50 links, 20 images, 10 lists and 5000 characters of text; \<open>rawHtml\<close> has
  at most 2003 characters, the 2000 kept and the three of the marker \<open>...\<close>.
\<close>

theorem content_block_caps:
  assumes "parse_sections L html u = Inr ss" and "s \<in> set ss"
  shows "length (headings (content s)) \<le> 10 \<and> length (links (content s)) \<le> 50 \<and>
         length (images (content s)) \<le> 20 \<and> length (lists_c (content s)) \<le> 10 \<and>
         length (text_c (content s)) \<le> 5000 \<and> length (rawHtml s) \<le> 2003"
proof -
  from parse_sections_origin[OF assms] consider
    "s = placeholder u" | e i where "extract_section L e u i = Inr (Some s)" by blast
  then show ?thesis
  proof cases
    case 1
    then show ?thesis by (simp add: placeholder_caps)
  next
    case 2
    from extract_section_caps[OF 2] show ?thesis by simp
  qed
qed

theorem content_block_caps_witness:
  "\<exists>s. parse_sections (fixed_page long_page) ''<main>a...</main>'' ''http://example.com'' = Inr [s]
     \<and> length (headings (content s)) \<le> 10 \<and> length (links (content s)) \<le> 50
     \<and> length (images (content s)) \<le> 20 \<and> length (lists_c (content s)) \<le> 10
     \<and> length (text_c (content s)) \<le> 5000 \<and> length (rawHtml s) \<le> 2003"
proof -
  obtain s where p:
    "parse_sections (fixed_page long_page) ''<main>a...</main>'' ''http://example.com'' = Inr [s]"
    using parse_long_page_returns by blast
  have "s \<in> set [s]" by simp
  from content_block_caps[OF p this] p show ?thesis by blast
qed

text \<open>
  The claim's bound of 2000 characters on \<open>rawHtml\<close> fails: a \<open>main\<close> element holding
  2001 characters of text gives a \<open>rawHtml\<close> of 2003 characters.
\<close>

theorem raw_html_exceeds_2000:
  "raw_lengths (parse_sections (fixed_page long_page) ''<main>a...</main>'' ''http://example.com'')
     = [2003]"
proof -
  obtain s where s:
    "extract_section (fixed_page long_page) (Some long_main) ''http://example.com'' 0 = Inr (Some s)"
    using extract_long_main_returns by blast
  have "html_of (fixed_page long_page) long_main = serialize long_main"
    by (simp add: fixed_page_def)
  with extract_section_raw[OF s] length_serialize_long_main have "length (rawHtml s) = 2003"
    by simp
  with parse_long_page[OF s] show ?thesis by (simp add: raw_lengths_def)
qed


section \<open>C5: section identifiers\<close>

text \<open>
  C5, as the code has it. The identifiers of a result are pairwise different. For
  markup that is not blank every section's \<open>id\<close> is its \<open>type\<close>, a hyphen and an index
  below 20, and that index is the section's position in the list (the root of a parsed
  tree is never a heading). For blank markup the result is the placeholder alone, whose
  \<open>id\<close> is the fixed string \<open>empty-0\<close> beside the type \<open>unknown\<close>.
\<close>

theorem section_ids:
  assumes "parse_sections L html u = Inr ss"
  shows "distinct (map sec_id ss) \<and>
    (if html = [] \<or> strip html = [] then ss = [placeholder u]
     else (\<forall>s\<in>set ss. \<exists>i<20. sec_id s = sec_type s @ ''-'' @ dec i) \<and>
          (tag (HTMLParser L html) \<notin> set heading_tags \<longrightarrow>
             (\<forall>i<length ss. sec_id (ss ! i) = sec_type (ss ! i) @ ''-'' @ dec i)))"
proof (cases "html = [] \<or> strip html = []")
  case True
  with assms show ?thesis by (auto simp: parse_sections_def)
next
  case False
  define parser where "parser = remove_noise (Some (HTMLParser L html))"
  define body where "body = parser_body L (HTMLParser L html) parser"
  from assms False obtain secs where
    a: "extract_all L u 0 (take 20 (section_elements body parser)) = Inr secs"
    by (auto simp: parse_sections_def parser_def body_def Let_def split: sum.splits)
  have ids: "\<forall>s\<in>set ss. \<exists>i<20. sec_id s = sec_type s @ ''-'' @ dec i"
    using parse_sections_origin[OF assms] False extract_section_id by blast
  have dist: "distinct (map sec_id ss)"
  proof (cases "secs = []")
    case True
    with assms False a have "length ss \<le> 1"
      by (auto simp: parse_sections_def parser_def body_def Let_def split: option.splits sum.splits)
    then show ?thesis by (cases ss) auto
  next
    case ne: False
    with assms False a have "ss = secs" by (simp add: parse_sections_def parser_def body_def Let_def)
    with extract_all_distinct[OF a] show ?thesis by simp
  qed
  have pos: "\<forall>i<length ss. sec_id (ss ! i) = sec_type (ss ! i) @ ''-'' @ dec i"
    if root: "tag (HTMLParser L html) \<notin> set heading_tags"
  proof (cases "secs = []")
    case True
    with assms False a have "ss = [] \<or> (\<exists>b s. ss = [s] \<and> extract_section L (Some b) u 0 = Inr (Some s))"
      by (auto simp: parse_sections_def parser_def body_def Let_def split: option.splits sum.splits)
    then show ?thesis using extract_section_id by auto
  next
    case ne: False
    with assms False a have eq: "ss = secs" by (simp add: parse_sections_def parser_def body_def Let_def)
    from section_elements_present[OF root] have "None \<notin> set (take 20 (section_elements body parser))"
      unfolding parser_def by (auto dest: in_set_takeD)
    from extract_all_positions[OF this a] eq show ?thesis by simp
  qed
  from False ids dist pos show ?thesis by simp
qed

theorem section_ids_witness:
  "\<exists>s. parse_sections (fixed_page long_page) ''<main>a...</main>'' ''http://example.com'' = Inr [s]
     \<and> sec_id s = sec_type s @ ''-'' @ dec 0"
proof -
  obtain s where p:
    "parse_sections (fixed_page long_page) ''<main>a...</main>'' ''http://example.com'' = Inr [s]"
    using parse_long_page_returns by blast
  have "tag (HTMLParser (fixed_page long_page) ''<main>a...</main>'') \<notin> set heading_tags"
    by (simp add: fixed_page_def long_page_def heading_tags_def)
  with section_ids[OF p] not_blank_long_html
  have "\<forall>i<length [s]. sec_id ([s] ! i) = sec_type ([s] ! i) @ ''-'' @ dec i"
    by simp
  then have "sec_id s = sec_type s @ ''-'' @ dec 0" by simp
  with p show ?thesis by blast
qed

text \<open>
  The claim's \<open>id = type-index\<close> fails at the placeholder: its \<open>id\<close> is \<open>empty-0\<close>,
  not \<open>unknown-0\<close>.
\<close>

theorem placeholder_id_not_type_index:
  "parse_sections (fixed_page empty_document) [] ''http://example.com''
     = Inr [placeholder ''http://example.com'']
   \<and> sec_id (placeholder ''http://example.com'') = ''empty-0''
   \<and> sec_type (placeholder ''http://example.com'') @ ''-'' @ dec 0 = ''unknown-0''"
proof -
  have "dec 0 = ''0''" by code_simp
  then show ?thesis by (simp add: parse_sections_def placeholder_def)
qed


section \<open>C6: both fetches fail\<close>




text \<open>
  The placeholder and the two errors, spelled out for a render fetch that does not raise
  but records a navigation error and cannot read the page's markup.
\<close>

theorem render_error_without_markup:
  assumes "http W [Invoke StaticScrape url, HttpGet url] = Inl e1"
    and "act W [Invoke StaticScrape url, HttpGet url, Invoke JsScrape url, GetBrowser] = None"
    and "act W [Invoke StaticScrape url, HttpGet url, Invoke JsScrape url, GetBrowser, NewPage] = None"
    and "act W [Invoke StaticScrape url, HttpGet url, Invoke JsScrape url, GetBrowser, NewPage, Goto url]
           = Some (Error m)"
    and "read_str W [Invoke StaticScrape url, HttpGet url, Invoke JsScrape url, GetBrowser, NewPage,
           Goto url, Content] = Inl e3"
    and "act W [Invoke StaticScrape url, HttpGet url, Invoke JsScrape url, GetBrowser, NewPage,
           Goto url, Content, ClosePage] = None"
  shows "\<exists>r. fst (scrape L W url t) = Inr r \<and>
           errors r = [\<lparr>message = ''Static scrape failed: '' @ exn_str e1, phase = ''fetch''\<rparr>,
                       \<lparr>message = ''JS rendering error: '' @ m, phase = ''render''\<rparr>] \<and>
           sections r = [placeholder url] \<and> meta r = extract_meta_static L []"
  using assms static_scrape_fails[OF assms(1), of L]
  by (simp add: scrape_def static_first_def js_scrape_def js_handler_def harvest_def Let_def
      assemble_def parse_sections_blank render_error_def)

theorem render_error_without_markup_witness:
  "\<exists>r. fst (scrape (fixed_page empty_document)
            (no_network\<lparr>act := (\<lambda>tr. if last tr = Goto ''http://example.com''
                                       then Some (Error ''net::ERR_NAME_NOT_RESOLVED'') else None)\<rparr>)
            ''http://example.com'' ''t'') = Inr r \<and>
       map phase (errors r) = [''fetch'', ''render''] \<and>
       sections r = [placeholder ''http://example.com'']"
proof -
  let ?W = "no_network\<lparr>act := (\<lambda>tr. if last tr = Goto ''http://example.com''
                                       then Some (Error ''net::ERR_NAME_NOT_RESOLVED'') else None)\<rparr>"
  from render_error_without_markup[of ?W "''http://example.com''" "Error ''ConnectError''"
      "''net::ERR_NAME_NOT_RESOLVED''" "Error ''no page''" "fixed_page empty_document" "''t''"]
  obtain r where "fst (scrape (fixed_page empty_document) ?W ''http://example.com'' ''t'') = Inr r"
    and "errors r = [\<lparr>message = ''Static scrape failed: '' @ exn_str (Error ''ConnectError''), phase = ''fetch''\<rparr>,
                     \<lparr>message = ''JS rendering error: '' @ ''net::ERR_NAME_NOT_RESOLVED'', phase = ''render''\<rparr>]"
    and "sections r = [placeholder ''http://example.com'']"
    by (auto simp: no_network_def)
  then show ?thesis by auto
qed


section \<open>C7: noise removal\<close>

text \<open>
  C7, as the code has it. After noise removal no element is left whose \<open>class\<close>
  attribute contains \<open>cookie\<close>, \<open>banner\<close>, \<open>modal\<close>, \<open>popup\<close> or \<open>overlay\<close>, and none
  whose \<open>id\<close> attribute contains \<open>cookie\<close>, \<open>banner\<close>, \<open>modal\<close> or \<open>popup\<close>, in
  whatever case the attribute value is written.
\<close>

theorem noise_removed:
  "doc_css (AttrSub ''class'' ''cookie'') (remove_noise d) = [] \<and>
   doc_css (AttrSub ''class'' ''banner'') (remove_noise d) = [] \<and>
   doc_css (AttrSub ''class'' ''modal'') (remove_noise d) = [] \<and>
   doc_css (AttrSub ''class'' ''popup'') (remove_noise d) = [] \<and>
   doc_css (AttrSub ''class'' ''overlay'') (remove_noise d) = [] \<and>
   doc_css (AttrSub ''id'' ''cookie'') (remove_noise d) = [] \<and>
   doc_css (AttrSub ''id'' ''banner'') (remove_noise d) = [] \<and>
   doc_css (AttrSub ''id'' ''modal'') (remove_noise d) = [] \<and>
   doc_css (AttrSub ''id'' ''popup'') (remove_noise d) = []"
  by (intro conjI noise_selector_selects_nothing) (simp_all add: noise_selectors_def)

text \<open>
  The claim fails for an \<open>id\<close> containing \<open>overlay\<close>: noise removal leaves the
  element \<open><div id="overlay">\<close> of this page where it is.
\<close>

theorem id_overlay_kept:
  "remove_noise (Some overlay_page) = Some overlay_page"
  by code_simp

text \<open>
  A \<open>class\<close> written in another case is removed: of the two elements of this page,
  \<open><div class="Cookie-Banner">\<close> goes and \<open><div id="overlay">\<close> stays.
\<close>

theorem mixed_case_class_removed:
  "remove_noise (Some noisy_page) = Some overlay_page"
  by code_simp


section \<open>C8: the raw snapshot\<close>

text \<open>
  C8. For every section element, \<open>truncated\<close> is true if and only if the serialised
  markup of the element is longer than 2000 characters; then \<open>rawHtml\<close> is its first
  2000 characters followed by the marker \<open>...\<close>, and otherwise \<open>rawHtml\<close> is the
  serialised markup unchanged.
\<close>

theorem truncated_iff_markup_exceeds_2000:
  assumes "extract_section L (Some elem) base_url idx = Inr (Some s)"
  shows "(truncated s \<longleftrightarrow> length (html_of L elem) > 2000) \<and>
         (truncated s \<longrightarrow> rawHtml s = take 2000 (html_of L elem) @ ''...'') \<and>
         (\<not> truncated s \<longrightarrow> rawHtml s = html_of L elem)"
  using extract_section_raw[OF assms] by blast

theorem truncated_iff_markup_exceeds_2000_witness:
  "\<exists>s. extract_section (fixed_page long_page) (Some long_main) ''http://example.com'' 0 = Inr (Some s)
       \<and> truncated s \<and> rawHtml s = take 2000 (serialize long_main) @ ''...''"
proof -
  obtain s where s:
    "extract_section (fixed_page long_page) (Some long_main) ''http://example.com'' 0 = Inr (Some s)"
    using extract_long_main_returns by blast
  have h: "html_of (fixed_page long_page) long_main = serialize long_main"
    by (simp add: fixed_page_def)
  from truncated_iff_markup_exceeds_2000[OF s] h length_serialize_long_main
  have "truncated s \<and> rawHtml s = take 2000 (serialize long_main) @ ''...''"
    by simp
  with s show ?thesis by blast
qed


section \<open>C9: the visited pages\<close>

text \<open>
  C9. In every interaction log the interaction-simulation fetch returns, the visited
  pages start with the origin URL, hold no URL twice and are at most 4; and the pages
  are exactly the URLs the method navigated to, in order, so no URL is followed twice.
\<close>

theorem visited_pages:
  assumes "js_scrape_for_interactions L W url tr = (Inr (html, m, errs, lg), tr')"
  shows "hd (pages lg) = url \<and> distinct (pages lg) \<and> length (pages lg) \<le> 4 \<and>
         gotos tr' = gotos tr @ pages lg"
  using js_scrape_for_interactions_pages[OF assms] by simp

theorem visited_pages_witness:
  "\<exists>h m e lg t.
     js_scrape_for_interactions (fixed_page empty_document) (paging_site ''<html></html>'')
       ''http://example.com'' [] = (Inr (h, m, e, lg), t) \<and>
     pages lg = [''http://example.com'', ''http://example.com/page1'', ''http://example.com/page2''] \<and>
     hd (pages lg) = ''http://example.com'' \<and> distinct (pages lg) \<and> length (pages lg) \<le> 4 \<and>
     gotos t = pages lg"
proof -
  from paging_site_run obtain h m e lg t where
    r: "js_scrape_for_interactions (fixed_page empty_document) (paging_site ''<html></html>'')
          ''http://example.com'' [] = (Inr (h, m, e, lg), t)" and
    p: "pages lg = [''http://example.com'', ''http://example.com/page1'', ''http://example.com/page2'']"
    by blast
  from visited_pages[OF r] have "hd (pages lg) = ''http://example.com'' \<and> distinct (pages lg) \<and>
    length (pages lg) \<le> 4 \<and> gotos t = pages lg" by simp
  with r p show ?thesis by blast
qed

text \<open>The list has in fact at most 3 entries: only the first two rounds follow a link.\<close>

theorem visited_pages_at_most_3:
  assumes "js_scrape_for_interactions L W url tr = (Inr (html, m, errs, lg), tr')"
  shows "length (pages lg) \<le> 3"
  using js_scrape_for_interactions_pages[OF assms] by simp

theorem visited_pages_at_most_3_witness:
  "\<exists>h m e lg t.
     js_scrape_for_interactions (fixed_page empty_document) (paging_site ''<html></html>'')
       ''http://example.com'' [] = (Inr (h, m, e, lg), t) \<and> length (pages lg) \<le> 3"
proof -
  from paging_site_run obtain h m e lg t where
    r: "js_scrape_for_interactions (fixed_page empty_document) (paging_site ''<html></html>'')
          ''http://example.com'' [] = (Inr (h, m, e, lg), t)"
    by blast
  from visited_pages_at_most_3[OF r] r show ?thesis by blast
qed


section \<open>C10: the default metadata\<close>

text \<open>
  C10. When the static fetch and the fallback render fetch both raise, the metadata of
  the result is the default record, title and description empty, language \<open>en\<close>, no
  canonical URL; it is what the static extractor gives on the empty string, which the
  parser turns into the empty document.
\<close>

theorem default_metadata:
  assumes "http W [Invoke StaticScrape url, HttpGet url] = Inl e1"
    and "fst (js_scrape L W url [Invoke StaticScrape url, HttpGet url]) = Inl e2"
    and "HTMLParser L [] = empty_document"
  shows "(\<exists>r. fst (scrape L W url t) = Inr r \<and>
            meta r = \<lparr>title = [], description = [], language = ''en'', canonical = None\<rparr>) \<and>
         extract_meta_static L [] = \<lparr>title = [], description = [], language = ''en'', canonical = None\<rparr>"
  using scrape_both_fail[OF assms(1,2), of t] extract_meta_static_empty[OF assms(3)]
  by (simp add: default_meta_def)

theorem default_metadata_witness:
  "\<exists>r. fst (scrape (fixed_page empty_document) no_network ''http://example.com'' ''t'') = Inr r \<and>
     meta r = \<lparr>title = [], description = [], language = ''en'', canonical = None\<rparr>"
proof -
  have "HTMLParser (fixed_page empty_document) [] = empty_document" by (simp add: fixed_page_def)
  from default_metadata[OF no_network_fails(1) no_network_fails(2) this] show ?thesis by blast
qed

end

